theory Spec2Isabelle
  imports Main "HOL-Library.Word"
begin

datatype error =
    ManifestNotFound string
  | InvalidNumberFormat string
  | PartitionNumberOutOfRange int int
  | DuplicatePartitionNumber int
  | CalledProcessError "string list"
  | FileNotFoundError string
  | FileExistsError
  | OSError
  | ValueError
  | KeyError string
  | IndexError
  | UnicodeDecodeError

datatype failure = NonZeroExit | NoSuchProgram

type_synonym bytes = "8 word list"

definition hex_digit :: "nat \<Rightarrow> char" where
  "hex_digit n = ''0123456789abcdef'' ! n"

definition hexlify :: "bytes \<Rightarrow> string" where
  "hexlify bs = concat (map (\<lambda>b. [hex_digit (unat b div 16), hex_digit (unat b mod 16)]) bs)"

definition is_space :: "char \<Rightarrow> bool" where
  "is_space c = (of_char c \<in> {9, 10, 11, 12, 13, 28, 29, 30, 31, 32, 133, 160 :: nat})"

definition strip :: "string \<Rightarrow> string" where
  "strip s = rev (dropWhile is_space (rev (dropWhile is_space s)))"

definition digit_val :: "nat \<Rightarrow> char \<Rightarrow> nat option" where
  "digit_val base c =
     (let k = (of_char c :: nat);
          v = (if 48 \<le> k \<and> k \<le> 57 then Some (k - 48)
               else if 97 \<le> k \<and> k \<le> 122 then Some (k - 87)
               else if 65 \<le> k \<and> k \<le> 90 then Some (k - 55)
               else None)
      in case v of None \<Rightarrow> None | Some d \<Rightarrow> if d < base then Some d else None)"

fun parse_digits :: "nat \<Rightarrow> int \<Rightarrow> string \<Rightarrow> int option" where
  "parse_digits base acc [] = Some acc"
| "parse_digits base acc (c # cs) =
     (if c = CHR ''_'' then
        (case cs of
           [] \<Rightarrow> None
         | d # ds \<Rightarrow>
            (case digit_val base d of
               None \<Rightarrow> None
             | Some v \<Rightarrow> parse_digits base (acc * int base + int v) ds))
      else
        (case digit_val base c of
           None \<Rightarrow> None
         | Some v \<Rightarrow> parse_digits base (acc * int base + int v) cs))"

definition parse_num :: "nat \<Rightarrow> string \<Rightarrow> int option" where
  "parse_num base s =
     (case s of
        [] \<Rightarrow> None
      | c # cs \<Rightarrow>
          (case digit_val base c of
             None \<Rightarrow> None
           | Some v \<Rightarrow> parse_digits base (int v) cs))"

definition skip_sign :: "string \<Rightarrow> bool \<times> string" where
  "skip_sign s =
     (case s of
        [] \<Rightarrow> (False, s)
      | c # r \<Rightarrow> if c = CHR ''-'' then (True, r)
                 else if c = CHR ''+'' then (False, r)
                 else (False, s))"

definition skip_prefix :: "nat \<Rightarrow> string \<Rightarrow> string" where
  "skip_prefix base s =
     (case s of
        z # x # r \<Rightarrow>
          if base = 16 \<and> z = CHR ''0'' \<and> (x = CHR ''x'' \<or> x = CHR ''X'')
          then (case r of [] \<Rightarrow> r | u # r' \<Rightarrow> if u = CHR ''_'' then r' else r)
          else s
      | _ \<Rightarrow> s)"

definition count_digits :: "string \<Rightarrow> nat" where
  "count_digits s = length (filter (\<lambda>c. c \<noteq> CHR ''_'') s)"

definition max_str_digits :: nat where
  "max_str_digits = 4300"

definition py_int :: "nat \<Rightarrow> string \<Rightarrow> error + int" where
  "py_int base s =
     (let (neg, u) = skip_sign (strip s);
          digits = skip_prefix base u
      in case parse_num base digits of
           None \<Rightarrow> Inl ValueError
         | Some n \<Rightarrow>
             if base \<notin> {2, 4, 8, 16, 32} \<and> max_str_digits < count_digits digits
             then Inl ValueError
             else Inr (if neg then - n else n))"


definition str_digit :: "nat \<Rightarrow> char" where
  "str_digit n = ''0123456789'' ! n"

fun str_nat :: "nat \<Rightarrow> string" where
  "str_nat n = (if n < 10 then [str_digit n] else str_nat (n div 10) @ [str_digit (n mod 10)])"

declare str_nat.simps [simp del]

definition str :: "int \<Rightarrow> string" where
  "str i = (if i < 0 then CHR ''-'' # str_nat (nat (- i)) else str_nat (nat i))"

definition is_word_char :: "char \<Rightarrow> bool" where
  "is_word_char c =
     (let k = (of_char c :: nat)
      in (48 \<le> k \<and> k \<le> 57) \<or> (65 \<le> k \<and> k \<le> 90) \<or> (97 \<le> k \<and> k \<le> 122) \<or> k = 95)"

function expandvars :: "(string \<Rightarrow> string option) \<Rightarrow> string \<Rightarrow> string" where
  "expandvars env [] = []"
| "expandvars env (c # cs) =
     (if c \<noteq> CHR ''$'' then c # expandvars env cs
      else if takeWhile is_word_char cs \<noteq> [] then
        (case env (takeWhile is_word_char cs) of
           Some v \<Rightarrow> v
         | None \<Rightarrow> CHR ''$'' # takeWhile is_word_char cs)
        @ expandvars env (dropWhile is_word_char cs)
      else if cs \<noteq> [] \<and> hd cs = CHR ''{''
              \<and> dropWhile (\<lambda>x. x \<noteq> CHR ''}'') (tl cs) \<noteq> [] then
        (case env (takeWhile (\<lambda>x. x \<noteq> CHR ''}'') (tl cs)) of
           Some v \<Rightarrow> v
         | None \<Rightarrow> ''${'' @ takeWhile (\<lambda>x. x \<noteq> CHR ''}'') (tl cs) @ ''}'')
        @ expandvars env (tl (dropWhile (\<lambda>x. x \<noteq> CHR ''}'') (tl cs)))
      else CHR ''$'' # expandvars env cs)"
  by pat_completeness auto
termination
proof (relation "measure (\<lambda>(env, s). length s)")
  show "wf (measure (\<lambda>(env, s). length s))" by simp
next
  fix env :: "string \<Rightarrow> string option" and c :: char and cs :: string
  show "((env, cs), env, c # cs) \<in> measure (\<lambda>(env, s). length s)" by simp
next
  fix env :: "string \<Rightarrow> string option" and c :: char and cs :: string
  have "length (dropWhile is_word_char cs) \<le> length cs" by (rule length_dropWhile_le)
  then show "((env, dropWhile is_word_char cs), env, c # cs) \<in> measure (\<lambda>(env, s). length s)"
    by simp
next
  fix env :: "string \<Rightarrow> string option" and c :: char and cs :: string
  have "length (tl (dropWhile (\<lambda>x. x \<noteq> CHR ''}'') (tl cs))) \<le> length cs"
    using length_dropWhile_le [of "\<lambda>x. x \<noteq> CHR ''}''" "tl cs"]
    by simp
  then show "((env, tl (dropWhile (\<lambda>x. x \<noteq> CHR ''}'') (tl cs))), env, c # cs)
       \<in> measure (\<lambda>(env, s). length s)"
    by simp
next
  fix env :: "string \<Rightarrow> string option" and c :: char and cs :: string
  show "((env, cs), env, c # cs) \<in> measure (\<lambda>(env, s). length s)" by simp
qed

record partition =
  path :: string
  label :: string
  sizeByMb :: string
  num :: int
  start :: "string option"
  endp :: "string option"
  fd :: "nat option"

record world =
  files :: "string \<Rightarrow> bytes option"
  environ :: "string \<Rightarrow> string option"
  open_fds :: "nat list"
  tmp_names :: "nat \<Rightarrow> string"
  codec :: "bytes \<Rightarrow> string option"
  unsparse_raw :: "bytes \<Rightarrow> bytes option"
  sgdisk_edit :: "string list \<Rightarrow> bytes \<Rightarrow> bytes option"
  fault :: "nat \<Rightarrow> failure option"
  trace :: "string list list"

type_synonym 'a comp = "world \<Rightarrow> (error + 'a) \<times> world"

definition seq :: "'a comp \<Rightarrow> ('a \<Rightarrow> 'b comp) \<Rightarrow> 'b comp" where
  "seq m f w = (case m w of (Inl e, w') \<Rightarrow> (Inl e, w') | (Inr x, w') \<Rightarrow> f x w')"

definition ret :: "'a \<Rightarrow> 'a comp" where
  "ret x w = (Inr x, w)"

definition raise :: "error \<Rightarrow> 'a comp" where
  "raise e w = (Inl e, w)"

definition lift :: "(world \<Rightarrow> error + 'a) \<Rightarrow> 'a comp" where
  "lift f w = (f w, w)"

definition exists :: "world \<Rightarrow> string \<Rightarrow> bool" where
  "exists w p = (files w p \<noteq> None)"

definition getsize :: "string \<Rightarrow> world \<Rightarrow> error + int" where
  "getsize p w = (case files w p of None \<Rightarrow> Inl (FileNotFoundError p) | Some bs \<Rightarrow> Inr (int (length bs)))"

definition check_sparse :: "string \<Rightarrow> world \<Rightarrow> error + bool" where
  "check_sparse filename w =
     (let magic = 3978755898
      in case files w filename of
           None \<Rightarrow> Inl (FileNotFoundError filename)
         | Some content \<Rightarrow>
             (let word = take 4 content
              in case py_int 16 (hexlify (rev word)) of
                   Inl e \<Rightarrow> Inl e
                 | Inr v \<Rightarrow> Inr (magic = v)))"

definition shell_command ::
  "string list \<Rightarrow> (world \<Rightarrow> (string \<Rightarrow> bytes option) option) \<Rightarrow> unit comp" where
  "shell_command comm_list effect w =
     (let w' = w\<lparr>trace := trace w @ [comm_list]\<rparr>
      in case fault w (length (trace w)) of
           Some NoSuchProgram \<Rightarrow> (Inl (FileNotFoundError (hd comm_list)), w')
         | Some NonZeroExit \<Rightarrow> (Inl (CalledProcessError comm_list), w')
         | None \<Rightarrow>
             (case effect w of
                None \<Rightarrow> (Inl (CalledProcessError comm_list), w')
              | Some fs \<Rightarrow> (Inr (), w'\<lparr>files := fs\<rparr>)))"

definition MiB :: nat where
  "MiB = 1048576"

definition write_at :: "bytes \<Rightarrow> nat \<Rightarrow> bytes \<Rightarrow> bytes" where
  "write_at old off data =
     (if data = [] then old
      else take off (old @ replicate (off - length old) 0) @ data @ drop (off + length data) old)"

definition sync_pad :: "nat \<Rightarrow> bytes \<Rightarrow> bytes" where
  "sync_pad bs data = data @ replicate ((bs - length data mod bs) mod bs) 0"

definition dd_copy :: "string \<Rightarrow> string \<Rightarrow> nat \<Rightarrow> nat option \<Rightarrow> world \<Rightarrow> (string \<Rightarrow> bytes option) option" where
  "dd_copy src dst seek count w =
     (case files w src of
        None \<Rightarrow> None
      | Some content \<Rightarrow>
          if src = dst then None
          else
          (let data = (case count of None \<Rightarrow> content | Some n \<Rightarrow> take (n * MiB) content);
               old = (case files w dst of None \<Rightarrow> [] | Some b \<Rightarrow> b)
           in Some ((files w)(dst \<mapsto> write_at old (seek * MiB) (sync_pad MiB data)))))"

definition dd_zero_create :: "string \<Rightarrow> world \<Rightarrow> (string \<Rightarrow> bytes option) option" where
  "dd_zero_create dst w = Some ((files w)(dst \<mapsto> replicate MiB 0))"

definition dd_zero_at :: "string \<Rightarrow> nat \<Rightarrow> world \<Rightarrow> (string \<Rightarrow> bytes option) option" where
  "dd_zero_at dst seek w =
     (let old = (case files w dst of None \<Rightarrow> [] | Some b \<Rightarrow> b)
      in Some ((files w)(dst \<mapsto> write_at old (seek * MiB) (replicate MiB 0))))"

definition rm_rf :: "string \<Rightarrow> world \<Rightarrow> (string \<Rightarrow> bytes option) option" where
  "rm_rf p w = Some ((files w)(p := None))"

definition simg2img_run :: "string \<Rightarrow> string \<Rightarrow> world \<Rightarrow> (string \<Rightarrow> bytes option) option" where
  "simg2img_run src dst w =
     (case files w src of
        None \<Rightarrow> None
      | Some content \<Rightarrow>
          (case unsparse_raw w content of
             None \<Rightarrow> None
           | Some raw \<Rightarrow> Some ((files w)(dst \<mapsto> raw))))"

definition sgdisk_run ::
  "string list \<Rightarrow> string \<Rightarrow> world \<Rightarrow> (string \<Rightarrow> bytes option) option" where
  "sgdisk_run args img w =
     (case files w img of
        None \<Rightarrow> None
      | Some b \<Rightarrow>
          (case sgdisk_edit w args b of
             None \<Rightarrow> None
           | Some b' \<Rightarrow> Some ((files w)(img \<mapsto> b'))))"

fun mkstemp_try :: "nat \<Rightarrow> nat \<Rightarrow> world \<Rightarrow> string option" where
  "mkstemp_try 0 k w = None"
| "mkstemp_try (Suc n) k w =
     (if files w (tmp_names w k) = None then Some (tmp_names w k) else mkstemp_try n (Suc k) w)"

definition fresh_fd :: "nat list \<Rightarrow> nat" where
  "fresh_fd fds = hd (filter (\<lambda>n. n \<notin> set fds) [0..<Suc (length fds)] @ [Suc (length fds)])"

definition TMP_MAX :: nat where
  "TMP_MAX = 10000"

definition mkstemp :: "(nat \<times> string) comp" where
  "mkstemp w =
     (case mkstemp_try TMP_MAX 0 w of
        None \<Rightarrow> (Inl FileExistsError, w)
      | Some p \<Rightarrow>
          (let n = fresh_fd (open_fds w)
           in (Inr (n, p), w\<lparr>files := (files w)(p \<mapsto> []), open_fds := n # open_fds w\<rparr>)))"

definition os_close :: "nat \<Rightarrow> unit comp" where
  "os_close n w =
     (if n \<in> set (open_fds w) then (Inr (), w\<lparr>open_fds := removeAll n (open_fds w)\<rparr>)
      else (Inl OSError, w))"

definition os_remove :: "string \<Rightarrow> unit comp" where
  "os_remove p w =
     (case files w p of
        None \<Rightarrow> (Inl (FileNotFoundError p), w)
      | Some b \<Rightarrow> (Inr (), w\<lparr>files := (files w)(p := None)\<rparr>))"

definition decode :: "bytes \<Rightarrow> string" where
  "decode bs = map (\<lambda>b. char_of (unat b)) bs"

definition encode :: "string \<Rightarrow> bytes" where
  "encode s = map (\<lambda>c. of_nat (of_char c)) s"

fun universal_newlines :: "string \<Rightarrow> string" where
  "universal_newlines [] = []"
| "universal_newlines [c] = (if c = CHR 0x0D then [CHR 0x0A] else [c])"
| "universal_newlines (c # d # r) =
     (if c = CHR 0x0D then
        (if d = CHR 0x0A then CHR 0x0A # universal_newlines r
         else CHR 0x0A # universal_newlines (d # r))
      else c # universal_newlines (d # r))"

fun split_lines :: "string \<Rightarrow> string \<Rightarrow> string list" where
  "split_lines cur [] = (if cur = [] then [] else [cur])"
| "split_lines cur (c # cs) =
     (if c = CHR 0x0A then (cur @ [c]) # split_lines [] cs else split_lines (cur @ [c]) cs)"

definition readlines :: "string \<Rightarrow> string list" where
  "readlines s = split_lines [] (universal_newlines s)"

fun split_ws :: "string \<Rightarrow> string \<Rightarrow> string list" where
  "split_ws cur [] = (if cur = [] then [] else [cur])"
| "split_ws cur (c # cs) =
     (if is_space c then (if cur = [] then split_ws [] cs else cur # split_ws [] cs)
      else split_ws (cur @ [c]) cs)"

definition split :: "string \<Rightarrow> string list" where
  "split s = split_ws [] s"

fun expand_params :: "(string \<Rightarrow> string option) \<Rightarrow> string list \<Rightarrow> unit" where
  "expand_params env [] = ()"
| "expand_params env (param # rest) = (let param = expandvars env param in expand_params env rest)"

fun parsed_lines :: "(string \<Rightarrow> string option) \<Rightarrow> string list \<Rightarrow> string list list" where
  "parsed_lines env [] = []"
| "parsed_lines env (line # lines) =
     (let line = strip line
      in if line = [] \<or> hd line = CHR ''#'' then parsed_lines env lines
         else (let params = split line
               in if length params = 3
                  then (let u = expand_params env params in params # parsed_lines env lines)
                  else parsed_lines env lines))"

function bitlen :: "int \<Rightarrow> int" where
  "bitlen n = (if n \<le> 0 then 0 else 1 + bitlen (n div 2))"
  by pat_completeness auto
termination
  by (relation "measure nat") auto

declare bitlen.simps [simp del]

definition round53 :: "int \<Rightarrow> int" where
  "round53 n =
     (if n < 9007199254740992 then n
      else (let e = nat (bitlen n - 53);
                q = n div 2 ^ e;
                r = n mod 2 ^ e;
                h = 2 ^ (e - 1)
            in (if h < r \<or> (r = h \<and> odd q) then q + 1 else q) * 2 ^ e))"

definition ceil_mb :: "int \<Rightarrow> int" where
  "ceil_mb n = (round53 n + 1048575) div 1048576"

fun build_partitions ::
  "world \<Rightarrow> nat \<Rightarrow> int set \<Rightarrow> partition list \<Rightarrow> string list list \<Rightarrow> error + partition list" where
  "build_partitions w nlines num_used partitions [] = Inr partitions"
| "build_partitions w nlines num_used partitions (line # rest) =
     (case line of
        [l0, l1, l2] \<Rightarrow>
          (case getsize l0 w of
             Inl e \<Rightarrow> Inl e
           | Inr sz \<Rightarrow>
              (case py_int 10 l2 of
                 Inl e \<Rightarrow> Inl (InvalidNumberFormat l2)
               | Inr n \<Rightarrow>
                  if n > int nlines \<or> n < 0 then Inl (PartitionNumberOutOfRange n (int nlines))
                  else if n \<in> num_used then Inl (DuplicatePartitionNumber n)
                  else build_partitions w nlines (insert n num_used)
                         (partitions @
                            [\<lparr>path = l0, label = l1, sizeByMb = str (ceil_mb sz), num = n,
                              start = None, endp = None, fd = None\<rparr>])
                         rest))
      | _ \<Rightarrow> Inl IndexError)"

definition parse_input :: "string \<Rightarrow> world \<Rightarrow> error + partition list" where
  "parse_input input_file w =
     (let lines = readlines input_file
      in case build_partitions w (length lines) {} [] (parsed_lines (environ w) lines) of
           Inl e \<Rightarrow> Inl e
         | Inr partitions \<Rightarrow> Inr (sort_key num partitions))"

datatype route = FastExisting | FastTemplate | General

definition environ_get :: "world \<Rightarrow> string \<Rightarrow> string \<Rightarrow> string" where
  "environ_get w k dflt = (case environ w k of None \<Rightarrow> dflt | Some v \<Rightarrow> v)"

definition write_partition :: "partition \<Rightarrow> string \<Rightarrow> int \<Rightarrow> unit comp" where
  "write_partition part output_file offset =
     (let dd_comm = [''dd'', ''if='' @ path part, ''of='' @ output_file, ''conv=notrunc,sync'',
                     ''ibs=1024k'', ''obs=1024k'', ''seek='' @ str offset]
      in shell_command dd_comm (dd_copy (path part) output_file (nat offset) None))"

definition unsparse_partition :: "partition \<Rightarrow> partition comp" where
  "unsparse_partition part w =
     (let simg2img = environ_get w ''SIMG2IMG'' ''simg2img''
      in seq mkstemp (\<lambda>(n, temp_file).
           seq (shell_command [simg2img, path part, temp_file]
                  (simg2img_run (path part) temp_file))
               (\<lambda>u. ret (part\<lparr>fd := Some n, path := temp_file\<rparr>))) w)"

definition clear_partition_table :: "string \<Rightarrow> unit comp" where
  "clear_partition_table filename w =
     (let sgdisk = environ_get w ''SGDISK'' ''sgdisk''
      in shell_command [sgdisk, ''--clear'', filename] (sgdisk_run [''--clear''] filename) w)"

definition add_partition_comm :: "string \<Rightarrow> partition \<Rightarrow> string \<Rightarrow> string \<Rightarrow> string \<Rightarrow> string list" where
  "add_partition_comm sgdisk part s e output_file =
     (let n = str (num part);
          new_comm = ''--new='' @ n @ '':'' @ s @ '':'' @ e;
          type_comm = ''--type='' @ n @ '':8300'';
          name_comm = ''--change-name='' @ n @ '':'' @ label part
      in [sgdisk, new_comm, type_comm, name_comm, output_file])"

definition add_partition :: "partition \<Rightarrow> string \<Rightarrow> unit comp" where
  "add_partition part output_file w =
     (let sgdisk = environ_get w ''SGDISK'' ''sgdisk''
      in case start part of
           None \<Rightarrow> (Inl (KeyError ''start''), w)
         | Some s \<Rightarrow>
            (case endp part of
               None \<Rightarrow> (Inl (KeyError ''end''), w)
             | Some e \<Rightarrow>
                 shell_command (add_partition_comm sgdisk part s e output_file)
                   (sgdisk_run (butlast (tl (add_partition_comm sgdisk part s e output_file)))
                      output_file) w))"

definition place :: "partition \<Rightarrow> string \<Rightarrow> partition comp" where
  "place part output_filename =
     seq (lift (getsize output_filename)) (\<lambda>offset.
       let part = part\<lparr>start := Some (str (offset div 512))\<rparr>
       in seq (lift (check_sparse (path part))) (\<lambda>sparse.
            seq (if sparse then unsparse_partition part else ret part) (\<lambda>part.
              seq (write_partition part output_filename (offset div 1024 div 1024)) (\<lambda>u.
                seq (lift (getsize output_filename)) (\<lambda>offset.
                  ret (part\<lparr>endp := Some (str (offset div 512 - 1))\<rparr>))))))"

fun compose :: "partition list \<Rightarrow> string \<Rightarrow> partition list comp" where
  "compose [] output_filename = ret []"
| "compose (part # rest) output_filename =
     seq (place part output_filename) (\<lambda>p.
       seq (compose rest output_filename) (\<lambda>ps. ret (p # ps)))"

definition cleanup :: "partition \<Rightarrow> unit comp" where
  "cleanup part =
     (case fd part of
        None \<Rightarrow> ret ()
      | Some n \<Rightarrow> seq (os_close n) (\<lambda>u. os_remove (path part)))"

fun write_table :: "partition list \<Rightarrow> string \<Rightarrow> unit comp" where
  "write_table [] output_filename = ret ()"
| "write_table (part # rest) output_filename =
     seq (add_partition part output_filename) (\<lambda>u.
       seq (cleanup part) (\<lambda>u. write_table rest output_filename))"

definition dd_fast :: "string \<Rightarrow> string \<Rightarrow> string \<Rightarrow> string list" where
  "dd_fast src output_filename seek =
     [''dd'', ''if='' @ src, ''of='' @ output_filename, ''conv=notrunc,sync'', ''ibs=1024k'',
      ''obs=1024k'', ''seek='' @ seek]"

definition dd_tmpl :: "string \<Rightarrow> string \<Rightarrow> string \<Rightarrow> string list" where
  "dd_tmpl src output_filename seek =
     [''dd'', ''if='' @ src, ''of='' @ output_filename, ''bs=1024k'', ''conv=notrunc,sync'',
      ''seek='' @ seek]"

definition shortcut_existing :: "partition list \<Rightarrow> string \<Rightarrow> route comp" where
  "shortcut_existing partitions output_filename =
     (case partitions of
        [p0, p1] \<Rightarrow>
          seq (shell_command (dd_fast (path p0) output_filename ''1'')
                 (dd_copy (path p0) output_filename 1 None)) (\<lambda>u.
            seq (shell_command (dd_fast (path p1) output_filename ''2'')
                   (dd_copy (path p1) output_filename 2 None)) (\<lambda>u.
              ret FastExisting))
      | _ \<Rightarrow> raise IndexError)"

definition shortcut_template :: "partition \<Rightarrow> partition \<Rightarrow> string \<Rightarrow> string \<Rightarrow> string \<Rightarrow> route comp" where
  "shortcut_template p0 p1 gpt_head gpt_tail output_filename =
     seq (shell_command [''dd'', ''if='' @ gpt_head, ''of='' @ output_filename, ''bs=1024k'',
                         ''conv=notrunc,sync'', ''count=1'']
            (dd_copy gpt_head output_filename 0 (Some 1))) (\<lambda>u.
       seq (shell_command (dd_tmpl (path p0) output_filename ''1'')
              (dd_copy (path p0) output_filename 1 None)) (\<lambda>u.
         seq (lift (\<lambda>w. py_int 10 (sizeByMb p0))) (\<lambda>s0.
           seq (shell_command (dd_tmpl (path p1) output_filename (str (1 + s0)))
                  (dd_copy (path p1) output_filename (nat (1 + s0)) None)) (\<lambda>u.
             seq (lift (\<lambda>w. py_int 10 (sizeByMb p1))) (\<lambda>s1.
               seq (shell_command (dd_tmpl gpt_tail output_filename (str (1 + s0 + s1)))
                      (dd_copy gpt_tail output_filename (nat (1 + s0 + s1)) None)) (\<lambda>u.
                 ret FastTemplate))))))"

definition combine :: "partition list \<Rightarrow> string \<Rightarrow> route comp" where
  "combine partitions output_filename =
     seq (shell_command [''dd'', ''if=/dev/zero'', ''of='' @ output_filename, ''ibs=1024k'', ''count=1'']
            (dd_zero_create output_filename)) (\<lambda>u.
       seq (compose partitions output_filename) (\<lambda>partitions.
         seq (lift (getsize output_filename)) (\<lambda>sz.
           let offset = sz div 1024 div 1024
           in seq (shell_command [''dd'', ''if=/dev/zero'', ''of='' @ output_filename, ''conv=notrunc'',
                                  ''bs=1024k'', ''count=1'', ''seek='' @ str offset]
                     (dd_zero_at output_filename (nat offset))) (\<lambda>u.
                seq (clear_partition_table output_filename) (\<lambda>u.
                  seq (write_table partitions output_filename) (\<lambda>u.
                    ret General))))))"

definition main :: "string \<Rightarrow> string \<Rightarrow> string \<Rightarrow> route comp" where
  "main args_input args_output script_dir w =
     (let output_filename = expandvars (environ w) args_output
      in seq (shell_command [''rm'', ''-rf'', output_filename @ ''.qcow2'']
                (rm_rf (output_filename @ ''.qcow2''))) (\<lambda>u w.
           let config_filename = args_input
           in case files w config_filename of
                None \<Rightarrow> (Inl (ManifestNotFound config_filename), w)
              | Some config \<Rightarrow>
                 (case codec w config of
                    None \<Rightarrow> (Inl UnicodeDecodeError, w)
                  | Some manifest \<Rightarrow>
                  seq (lift (parse_input manifest)) (\<lambda>partitions w.
                    if exists w output_filename \<and> length partitions = 2
                    then shortcut_existing partitions output_filename w
                    else
                      (case partitions of
                         [p0, p1] \<Rightarrow>
                           (let gptprefix = sizeByMb p0 @ ''_'' @ sizeByMb p1;
                                prebuilt_gpt_dir = script_dir @ ''/prebuilt/gpt/'' @ gptprefix;
                                gpt_head = prebuilt_gpt_dir @ ''/head.img'';
                                gpt_tail = prebuilt_gpt_dir @ ''/head.img''
                            in if exists w gpt_head \<and> exists w gpt_tail
                               then shortcut_template p0 p1 gpt_head gpt_tail output_filename w
                               else combine partitions output_filename w)
                       | _ \<Rightarrow> combine partitions output_filename w)) w)) w)"

definition be_int :: "bytes \<Rightarrow> int" where
  "be_int bs = foldl (\<lambda>a b. a * 256 + uint b) 0 bs"

definition is_hex_char :: "char \<Rightarrow> bool" where
  "is_hex_char c = (c \<in> set ''0123456789abcdef'')"

definition img_world :: "(string \<times> bytes) list \<Rightarrow> world" where
  "img_world fs =
     \<lparr>files = map_of fs, environ = Map.empty, open_fds = [0, 1, 2],
      tmp_names = (\<lambda>k. ''/tmp/tmp'' @ str (int k)), codec = (\<lambda>b. Some (decode b)),
      unsparse_raw = (\<lambda>b. None), sgdisk_edit = (\<lambda>args b. Some b),
      fault = (\<lambda>k. None), trace = []\<rparr>"

definition demo_part :: partition where
  "demo_part = \<lparr>path = ''a.img'', label = ''system'', sizeByMb = ''1'', num = 1,
                 start = None, endp = None, fd = None\<rparr>"

definition demo_stub :: world where
  "demo_stub = img_world [(''a.img'', [1, 2, 3]), (''out.img'', replicate 1048576 0)]"

fun accepted :: "world \<Rightarrow> int \<Rightarrow> int set \<Rightarrow> string list list \<Rightarrow> bool" where
  "accepted w k used [] = True"
| "accepted w k used (l # ls) =
     (length l = 3 \<and> files w (l ! 0) \<noteq> None \<and>
      (case py_int 10 (l ! 2) of
         Inl e \<Rightarrow> False
       | Inr n \<Rightarrow> 0 \<le> n \<and> n \<le> k \<and> n \<notin> used \<and> accepted w k (insert n used) ls))"

definition validated :: "world \<Rightarrow> int \<Rightarrow> string list list \<Rightarrow> bool" where
  "validated w k pre =
     ((\<forall>l \<in> set pre. length l = 3 \<and> files w (l ! 0) \<noteq> None \<and>
          (case py_int 10 (l ! 2) of Inl e \<Rightarrow> False | Inr n \<Rightarrow> 0 \<le> n \<and> n \<le> k))
      \<and> distinct (map (\<lambda>l. py_int 10 (l ! 2)) pre))"

definition dd_comm :: "string \<Rightarrow> string \<Rightarrow> int \<Rightarrow> string list" where
  "dd_comm src out off =
     [''dd'', ''if='' @ src, ''of='' @ out, ''conv=notrunc,sync'', ''ibs=1024k'', ''obs=1024k'',
      ''seek='' @ str off]"

definition copied :: "bytes \<Rightarrow> bytes \<Rightarrow> bytes" where
  "copied old data =
     write_at old (nat (int (length old) div 1024 div 1024) * MiB) (sync_pad MiB data)"

fun tiled :: "int \<Rightarrow> (int \<times> int) list \<Rightarrow> int \<Rightarrow> bool" where
  "tiled lo [] hi = (lo = hi)"
| "tiled lo ((s, e) # rest) hi = (s = lo \<and> s \<le> e \<and> tiled (e + 1) rest hi)"

definition sectors :: "partition \<Rightarrow> int \<times> int \<Rightarrow> bool" where
  "sectors p se = (start p = Some (str (fst se)) \<and> endp p = Some (str (snd se)))"

definition temp_fds :: "partition list \<Rightarrow> nat set" where
  "temp_fds ps = {n. \<exists>p \<in> set ps. fd p = Some n}"

definition temp_paths :: "partition list \<Rightarrow> string set" where
  "temp_paths ps = {q. \<exists>p \<in> set ps. fd p \<noteq> None \<and> path p = q}"

definition table_entry :: "string \<Rightarrow> string \<Rightarrow> partition \<Rightarrow> string list \<Rightarrow> bool" where
  "table_entry sgdisk out p c =
     (case start p of
        None \<Rightarrow> False
      | Some s \<Rightarrow>
          (case endp p of
             None \<Rightarrow> False
           | Some e \<Rightarrow>
               c = [sgdisk, ''--new='' @ str (num p) @ '':'' @ s @ '':'' @ e,
                    ''--type='' @ str (num p) @ '':8300'',
                    ''--change-name='' @ str (num p) @ '':'' @ label p, out]))"

definition stub :: "string \<Rightarrow> world \<Rightarrow> world" where
  "stub out w =
     w\<lparr>trace := trace w @ [[''dd'', ''if=/dev/zero'', ''of='' @ out, ''ibs=1024k'', ''count=1'']],
       files := (files w)(out \<mapsto> replicate MiB 0)\<rparr>"

definition after_rm :: "string \<Rightarrow> world \<Rightarrow> world" where
  "after_rm out w =
     w\<lparr>trace := trace w @ [[''rm'', ''-rf'', out @ ''.qcow2'']],
       files := (files w)(out @ ''.qcow2'' := None)\<rparr>"

definition declared :: "string list \<Rightarrow> (error + int) \<times> string" where
  "declared l = (py_int 10 (l ! 2), l ! 1)"

definition entry_key :: "partition \<Rightarrow> (error + int) \<times> string" where
  "entry_key p = (Inr (num p), label p)"

definition is_dec :: "char \<Rightarrow> bool" where
  "is_dec c = (\<exists>d < 10. c = str_digit d)"

definition run_world :: world where
  "run_world =
     (img_world [(''cfg'', encode ''a.img system 1\<newline>s.img data 2\<newline>''),
                 (''a.img'', [1, 2, 3]), (''s.img'', [0x3A, 0xFF, 0x26, 0xED])])
     \<lparr>unsparse_raw := (\<lambda>b. Some [7])\<rparr>"

definition clear_fails_world :: world where
  "clear_fails_world = run_world\<lparr>fault := (\<lambda>k. if k = 6 then Some NonZeroExit else None)\<rparr>"

definition zero_block_image :: bytes where
  "zero_block_image =
     [0x3A, 0xFF, 0x26, 0xED, 0x01, 0x00, 0x00, 0x00, 0x1C, 0x00, 0x0C, 0x00,
      0x00, 0x10, 0x00, 0x00, 0x00, 0x00, 0x00, 0x00, 0x00, 0x00, 0x00, 0x00,
      0x00, 0x00, 0x00, 0x00]"

definition empty_raw_world :: world where
  "empty_raw_world =
     (img_world [(''cfg'', encode ''a.img system 1\<newline>s.img data 2\<newline>''),
                 (''a.img'', [1, 2, 3]), (''s.img'', zero_block_image)])
     \<lparr>unsparse_raw := (\<lambda>b. if b = zero_block_image then Some [] else None)\<rparr>"

definition add_fails_world :: world where
  "add_fails_world = run_world\<lparr>fault := (\<lambda>k. if k = 7 then Some NonZeroExit else None)\<rparr>"

definition fast_empty_world :: world where
  "fast_empty_world =
     img_world [(''cfg'', encode ''a.img system 1\<newline>b.img vendor 2\<newline>''),
                (''a.img'', []), (''b.img'', [1]), (''out.img'', [9])]"

definition overlap_world :: world where
  "overlap_world =
     img_world [(''cfg'', encode ''a.img system 1\<newline>b.img vendor 2\<newline>''),
                (''a.img'', replicate 2097152 0xAA), (''b.img'', [0xBB]), (''out.img'', [])]"

definition template_world :: world where
  "template_world =
     img_world [(''cfg'', encode ''a.img system 1\<newline>b.img vendor 2\<newline>''),
                (''a.img'', [1]), (''b.img'', [2]),
                (''/s/prebuilt/gpt/1_1/head.img'', [0x48]),
                (''/s/prebuilt/gpt/1_1/tail.img'', [0x54])]"

lemma hex_digit_table:
  "\<forall>n \<in> set [0..<16]. digit_val 16 (hex_digit n) = Some n \<and> is_hex_char (hex_digit n)"
  by code_simp

lemma hex_digit_val: "n < 16 \<Longrightarrow> digit_val 16 (hex_digit n) = Some n"
  using hex_digit_table by simp

lemma hex_digit_is_hex: "n < 16 \<Longrightarrow> is_hex_char (hex_digit n)"
  using hex_digit_table by simp

lemma is_hex_char_facts:
  "is_hex_char c \<Longrightarrow> \<not> is_space c \<and> c \<noteq> CHR ''_'' \<and> c \<noteq> CHR ''-'' \<and> c \<noteq> CHR ''+''
      \<and> c \<noteq> CHR ''x'' \<and> c \<noteq> CHR ''X''"
  by (auto simp: is_hex_char_def is_space_def)

lemma byte_nibbles: "unat (b :: 8 word) div 16 < 16" "unat b mod 16 < 16"
proof -
  have "unat b < 256" using unsigned_less [of b] by simp
  then show "unat b div 16 < 16" by arith
  show "unat b mod 16 < 16" by arith
qed

lemma hexlify_Cons:
  "hexlify (b # bs) = hex_digit (unat b div 16) # hex_digit (unat b mod 16) # hexlify bs"
  by (simp add: hexlify_def)

lemma hexlify_Nil: "hexlify [] = []"
  by (simp add: hexlify_def)

lemma hexlify_chars: "c \<in> set (hexlify bs) \<Longrightarrow> is_hex_char c"
  by (induction bs) (auto simp: hexlify_Cons hexlify_Nil hex_digit_is_hex byte_nibbles)

lemma be_int_acc:
  "foldl (\<lambda>a b. a * 256 + uint (b :: 8 word)) acc bs = acc * 256 ^ length bs + be_int bs"
proof (induction bs arbitrary: acc)
  case Nil
  show ?case by (simp add: be_int_def)
next
  case (Cons b bs)
  have "foldl (\<lambda>a b. a * 256 + uint b) acc (b # bs)
        = (acc * 256 + uint b) * 256 ^ length bs + be_int bs"
    using Cons.IH [of "acc * 256 + uint b"] by simp
  moreover have "be_int (b # bs) = uint b * 256 ^ length bs + be_int bs"
    using Cons.IH [of "uint b"] by (simp add: be_int_def)
  ultimately show ?case by (simp add: algebra_simps)
qed

lemma be_int_Cons: "be_int (b # bs) = uint b * 256 ^ length bs + be_int bs"
  using be_int_acc [of "uint b" bs] by (simp add: be_int_def)

lemma parse_digits_step:
  "c \<noteq> CHR ''_'' \<Longrightarrow> digit_val base c = Some v \<Longrightarrow>
   parse_digits base acc (c # cs) = parse_digits base (acc * int base + int v) cs"
  by simp

lemma parse_digits_hexlify:
  "parse_digits 16 acc (hexlify bs) = Some (acc * 256 ^ length bs + be_int bs)"
proof (induction bs arbitrary: acc)
  case Nil
  show ?case by (simp add: hexlify_Nil be_int_def)
next
  case (Cons b bs)
  let ?h = "unat b div 16" and ?l = "unat b mod 16"
  have h: "hex_digit ?h \<noteq> CHR ''_''" "hex_digit ?l \<noteq> CHR ''_''"
    using is_hex_char_facts hex_digit_is_hex byte_nibbles by blast+
  have v: "digit_val 16 (hex_digit ?h) = Some ?h" "digit_val 16 (hex_digit ?l) = Some ?l"
    using hex_digit_val byte_nibbles by blast+
  have u: "int ?h * 16 + int ?l = uint b"
  proof -
    have "int (?h * 16 + ?l) = int (unat b)"
      by (simp only: div_mult_mod_eq)
    then show ?thesis
      by (simp only: of_nat_add of_nat_mult of_nat_numeral uint_nat)
  qed
  have "parse_digits 16 acc (hexlify (b # bs))
        = parse_digits 16 ((acc * 16 + int ?h) * 16 + int ?l) (hexlify bs)"
    unfolding hexlify_Cons
    by (simp only: parse_digits_step [OF h(1) v(1)] parse_digits_step [OF h(2) v(2)] of_nat_numeral)
  also have "\<dots> = Some (((acc * 16 + int ?h) * 16 + int ?l) * 256 ^ length bs + be_int bs)"
    by (rule Cons.IH)
  also have "((acc * 16 + int ?h) * 16 + int ?l) = acc * 256 + uint b"
    using u by (simp add: algebra_simps)
  finally show ?case by (simp add: be_int_Cons algebra_simps)
qed

lemma strip_no_space: "\<forall>c \<in> set s. \<not> is_space c \<Longrightarrow> strip s = s"
proof (cases s rule: rev_cases)
  case Nil
  then show ?thesis by (simp add: strip_def)
next
  case (snoc ys y)
  assume a: "\<forall>c \<in> set s. \<not> is_space c"
  then have "dropWhile is_space s = s"
    by (cases s) auto
  moreover have "dropWhile is_space (rev s) = rev s"
    using a snoc by simp
  ultimately show ?thesis by (simp add: strip_def)
qed

lemma py_int_hexlify:
  assumes "bs \<noteq> []"
  shows "py_int 16 (hexlify bs) = Inr (be_int bs)"
proof -
  obtain b r where bs: "bs = b # r" using assms by (cases bs) auto
  let ?h = "hex_digit (unat b div 16)" and ?l = "hex_digit (unat b mod 16)"
  have hx: "is_hex_char ?h" "is_hex_char ?l"
    using hex_digit_is_hex byte_nibbles by blast+
  have st: "strip (hexlify bs) = hexlify bs"
    using strip_no_space hexlify_chars is_hex_char_facts by blast
  have sg: "skip_sign (hexlify bs) = (False, hexlify bs)"
    using is_hex_char_facts [OF hx(1)] by (simp add: skip_sign_def bs hexlify_Cons)
  have pf: "skip_prefix 16 (hexlify bs) = hexlify bs"
    using is_hex_char_facts [OF hx(2)] by (simp add: skip_prefix_def bs hexlify_Cons)
  have "parse_num 16 (hexlify bs) = parse_digits 16 0 (hexlify bs)"
    using is_hex_char_facts [OF hx(1)] hex_digit_val [OF byte_nibbles(1) [of b]]
    by (simp add: parse_num_def bs hexlify_Cons)
  then have "parse_num 16 (hexlify bs) = Some (be_int bs)"
    by (simp add: parse_digits_hexlify)
  then show ?thesis by (simp add: py_int_def st sg pf)
qed

lemma py_int_hexlify_Nil: "py_int 16 (hexlify []) = Inl ValueError"
  by (simp add: py_int_def hexlify_Nil strip_def skip_sign_def skip_prefix_def parse_num_def)

lemma getsize_Inl: "getsize p w = Inl e \<longleftrightarrow> files w p = None \<and> e = FileNotFoundError p"
  by (auto simp: getsize_def split: option.splits)

lemma getsize_Inr: "getsize p w = Inr n \<longleftrightarrow> (\<exists>bs. files w p = Some bs \<and> n = int (length bs))"
  by (auto simp: getsize_def split: option.splits)

lemma length3: "length l = 3 \<Longrightarrow> \<exists>a b c. l = [a, b, c]"
  by (auto simp: length_Suc_conv numeral_3_eq_3)

lemma accepted_iff:
  "accepted w k used pre \<longleftrightarrow>
     validated w k pre \<and> (\<forall>l \<in> set pre. \<forall>n. py_int 10 (l ! 2) = Inr n \<longrightarrow> n \<notin> used)"
proof (induction pre arbitrary: used)
  case Nil
  show ?case by (simp add: validated_def)
next
  case (Cons l ls)
  show ?case
  proof (cases "py_int 10 (l ! 2)")
    case (Inl e)
    then show ?thesis by (simp add: validated_def)
  next
    case (Inr n)
    have "accepted w k used (l # ls) \<longleftrightarrow>
            length l = 3 \<and> files w (l ! 0) \<noteq> None \<and> 0 \<le> n \<and> n \<le> k \<and> n \<notin> used
            \<and> validated w k ls
            \<and> (\<forall>l' \<in> set ls. \<forall>m. py_int 10 (l' ! 2) = Inr m \<longrightarrow> m \<notin> insert n used)"
      using Inr Cons.IH [of "insert n used"] by simp
    also have "\<dots> \<longleftrightarrow> validated w k (l # ls)
            \<and> (\<forall>l' \<in> set (l # ls). \<forall>m. py_int 10 (l' ! 2) = Inr m \<longrightarrow> m \<notin> used)"
    proof -
      have fresh: "Inr n \<notin> (\<lambda>l. py_int 10 (l ! 2)) ` set ls \<longleftrightarrow>
                   (\<forall>l' \<in> set ls. \<forall>m. py_int 10 (l' ! 2) = Inr m \<longrightarrow> m \<noteq> n)"
        by force
      have v: "validated w k (l # ls) \<longleftrightarrow>
                 length l = 3 \<and> files w (l ! 0) \<noteq> None \<and> 0 \<le> n \<and> n \<le> k
                 \<and> validated w k ls
                 \<and> (\<forall>l' \<in> set ls. \<forall>m. py_int 10 (l' ! 2) = Inr m \<longrightarrow> m \<noteq> n)"
        unfolding validated_def using Inr fresh by (simp add: conj_ac)
      show ?thesis unfolding v using Inr by auto
    qed
    finally show ?thesis .
  qed
qed

lemma build_skip_accepted:
  "accepted w (int nl) used pre \<Longrightarrow>
   \<exists>used' acc'. build_partitions w nl used acc (pre @ rest) = build_partitions w nl used' acc' rest"
proof (induction pre arbitrary: used acc)
  case Nil
  show ?case by auto
next
  case (Cons l ls)
  from Cons.prems have "length l = 3" by simp
  then obtain l0 l1 l2 where l: "l = [l0, l1, l2]"
    using length3 by blast
  from Cons.prems l obtain n where n: "py_int 10 l2 = Inr n" "0 \<le> n" "n \<le> int nl" "n \<notin> used"
    "accepted w (int nl) (insert n used) ls" and f: "files w l0 \<noteq> None"
    by (auto split: sum.splits)
  from f obtain sz where sz: "getsize l0 w = Inr sz" by (auto simp: getsize_def)
  show ?case
    using Cons.IH [OF n(5)] n sz l by simp
qed

lemma build_out_of_range:
  "files w l0 \<noteq> None \<Longrightarrow> py_int 10 l2 = Inr n \<Longrightarrow> n < 0 \<or> int nl < n \<Longrightarrow>
   build_partitions w nl used acc ([l0, l1, l2] # post) = Inl (PartitionNumberOutOfRange n (int nl))"
  by (auto simp: getsize_def)

lemma build_out_of_range_decomp:
  "build_partitions w nl used acc ds = Inl (PartitionNumberOutOfRange n k) \<Longrightarrow>
   k = int nl \<and> (\<exists>pre l0 l1 l2 post. ds = pre @ [l0, l1, l2] # post \<and> accepted w (int nl) used pre
      \<and> files w l0 \<noteq> None \<and> py_int 10 l2 = Inr n \<and> (n < 0 \<or> int nl < n))"
proof (induction ds arbitrary: used acc)
  case Nil
  then show ?case by simp
next
  case (Cons l ls)
  from Cons.prems obtain l0 l1 l2 where l: "l = [l0, l1, l2]"
    by (auto split: list.splits)
  from Cons.prems l obtain sz where sz: "getsize l0 w = Inr sz"
    by (cases "getsize l0 w") (auto simp: getsize_Inl)
  then have f: "files w l0 \<noteq> None" by (auto simp: getsize_Inr)
  from Cons.prems l sz obtain m where m: "py_int 10 l2 = Inr m"
    by (cases "py_int 10 l2") auto
  show ?case
  proof (cases "int nl < m \<or> m < 0")
    case True
    with Cons.prems l sz m have "n = m" "k = int nl" by auto
    have "l # ls = [] @ [l0, l1, l2] # ls" using l by simp
    moreover have "accepted w (int nl) used []" by simp
    ultimately show ?thesis
      using True f m \<open>n = m\<close> \<open>k = int nl\<close> by blast
  next
    case False
    with Cons.prems l sz m have nu: "m \<notin> used" by (auto split: if_splits)
    with Cons.prems l sz m False obtain acc' where
      "build_partitions w nl (insert m used) acc' ls = Inl (PartitionNumberOutOfRange n k)"
      by auto
    from Cons.IH [OF this] obtain pre a b c post where
      d: "k = int nl" "ls = pre @ [a, b, c] # post" "accepted w (int nl) (insert m used) pre"
         "files w a \<noteq> None" "py_int 10 c = Inr n" "n < 0 \<or> int nl < n"
      by blast
    have "accepted w (int nl) used (l # pre)"
      using l f m False nu d(3) by simp
    moreover have "l # ls = (l # pre) @ [a, b, c] # post" using d(2) by simp
    ultimately show ?thesis using d by blast
  qed
qed

lemma seq_Inr_iff:
  "seq m f w = (Inr y, w'') \<longleftrightarrow> (\<exists>x w'. m w = (Inr x, w') \<and> f x w' = (Inr y, w''))"
  by (auto simp: seq_def split: prod.splits sum.splits)

lemma seq_Inl_iff:
  "seq m f w = (Inl e, w'') \<longleftrightarrow>
     m w = (Inl e, w'') \<or> (\<exists>x w'. m w = (Inr x, w') \<and> f x w' = (Inl e, w''))"
  by (auto simp: seq_def split: prod.splits sum.splits)

lemma lift_Inr_iff: "lift f w = (Inr x, w') \<longleftrightarrow> f w = Inr x \<and> w' = w"
  by (auto simp: lift_def)

lemma ret_iff: "ret x w = (r, w') \<longleftrightarrow> r = Inr x \<and> w' = w"
  by (auto simp: ret_def)

lemma shell_command_Inr_iff:
  "shell_command c eff w = (Inr u, w') \<longleftrightarrow>
     fault w (length (trace w)) = None \<and>
     (\<exists>fs. eff w = Some fs \<and> w' = w\<lparr>trace := trace w @ [c], files := fs\<rparr>)"
  by (auto simp: shell_command_def Let_def split: option.splits failure.splits)

lemma mkstemp_try_fresh: "mkstemp_try n k w = Some p \<Longrightarrow> files w p = None"
  by (induction n arbitrary: k) (auto split: if_splits)

lemma fresh_fd_fresh: "fresh_fd fds \<notin> set fds"
proof (cases "filter (\<lambda>n. n \<notin> set fds) [0..<Suc (length fds)]")
  case Nil
  then have a: "\<forall>x \<in> set [0..<Suc (length fds)]. x \<in> set fds"
    unfolding filter_empty_conv by blast
  have "{0..<Suc (length fds)} \<subseteq> set fds"
  proof
    fix x assume "x \<in> {0..<Suc (length fds)}"
    then have "x \<in> set [0..<Suc (length fds)]" by (simp del: upt_Suc)
    with a show "x \<in> set fds" by blast
  qed
  then have "card {0..<Suc (length fds)} \<le> card (set fds)"
    by (intro card_mono) simp_all
  also have "\<dots> \<le> length fds" by (rule card_length)
  finally show ?thesis by simp
next
  case (Cons k ks)
  have "k \<in> set (filter (\<lambda>n. n \<notin> set fds) [0..<Suc (length fds)])"
    unfolding Cons by simp
  then have "k \<notin> set fds" by (simp del: upt_Suc)
  moreover have "fresh_fd fds = k" unfolding fresh_fd_def Cons by simp
  ultimately show ?thesis by simp
qed

lemma mkstemp_Inr:
  "mkstemp w = (Inr (n, p), w') \<Longrightarrow>
     files w p = None \<and> n \<notin> set (open_fds w)
     \<and> w' = w\<lparr>files := (files w)(p \<mapsto> []), open_fds := n # open_fds w\<rparr>"
  by (auto simp: mkstemp_def Let_def fresh_fd_fresh dest: mkstemp_try_fresh split: option.splits)

lemma unsparse_partition_Inr:
  assumes "unsparse_partition p w = (Inr p2, w2)" and src: "files w (path p) = Some content"
  shows "\<exists>n tmp raw.
           files w tmp = None \<and> n \<notin> set (open_fds w)
           \<and> unsparse_raw w content = Some raw
           \<and> p2 = p\<lparr>fd := Some n, path := tmp\<rparr>
           \<and> w2 = w\<lparr>files := (files w)(tmp \<mapsto> raw), open_fds := n # open_fds w,
                    trace := trace w @ [[environ_get w ''SIMG2IMG'' ''simg2img'', path p, tmp]]\<rparr>"
proof -
  from assms obtain n tmp w1 where
    m: "mkstemp w = (Inr (n, tmp), w1)" and
    s: "shell_command [environ_get w ''SIMG2IMG'' ''simg2img'', path p, tmp]
          (simg2img_run (path p) tmp) w1 = (Inr (), w2)" and
    p2: "p2 = p\<lparr>fd := Some n, path := tmp\<rparr>"
    by (auto simp: unsparse_partition_def Let_def seq_Inr_iff ret_iff)
  from mkstemp_Inr [OF m] have
    f: "files w tmp = None" "n \<notin> set (open_fds w)"
       "w1 = w\<lparr>files := (files w)(tmp \<mapsto> []), open_fds := n # open_fds w\<rparr>"
    by auto
  from s obtain fs where fs: "simg2img_run (path p) tmp w1 = Some fs"
    and w2: "w2 = w1\<lparr>trace := trace w1 @ [[environ_get w ''SIMG2IMG'' ''simg2img'', path p, tmp]],
                     files := fs\<rparr>"
    by (auto simp: shell_command_Inr_iff)
  from fs f(3) obtain content0 raw where
    c0: "files w1 (path p) = Some content0" "unsparse_raw w1 content0 = Some raw"
        "fs = (files w1)(tmp \<mapsto> raw)"
    by (auto simp: simg2img_run_def split: option.splits)
  have ne: "path p \<noteq> tmp" using src f(1) by auto
  with c0 f(3) src have "unsparse_raw w content = Some raw"
    by auto
  moreover have "w2 = w\<lparr>files := (files w)(tmp \<mapsto> raw), open_fds := n # open_fds w,
                  trace := trace w @ [[environ_get w ''SIMG2IMG'' ''simg2img'', path p, tmp]]\<rparr>"
    using w2 c0(3) f(3) by simp
  ultimately show ?thesis using f p2 by blast
qed

lemma write_partition_Inr:
  "write_partition p out off w = (Inr u, w') \<longleftrightarrow>
     fault w (length (trace w)) = None \<and> path p \<noteq> out \<and>
     (\<exists>content. files w (path p) = Some content \<and>
        w' = w\<lparr>trace := trace w @ [[''dd'', ''if='' @ path p, ''of='' @ out, ''conv=notrunc,sync'',
                                       ''ibs=1024k'', ''obs=1024k'', ''seek='' @ str off]],
                 files := (files w)(out \<mapsto>
                    write_at (case files w out of None \<Rightarrow> [] | Some b \<Rightarrow> b) (nat off * MiB)
                      (sync_pad MiB content))\<rparr>)"
  by (auto simp: write_partition_def shell_command_Inr_iff dd_copy_def Let_def
      split: option.splits if_splits)

lemma check_sparse_Inr:
  "check_sparse f w = Inr sp \<Longrightarrow> \<exists>content. files w f = Some content \<and> content \<noteq> []"
proof -
  assume a: "check_sparse f w = Inr sp"
  then obtain content where c: "files w f = Some content"
    by (auto simp: check_sparse_def Let_def split: option.splits)
  have "content \<noteq> []"
  proof
    assume "content = []"
    with a c show False
      by (simp add: check_sparse_def Let_def py_int_hexlify_Nil)
  qed
  with c show ?thesis by blast
qed

lemma place_unfold:
  assumes "place p out w = (Inr p', w')"
  shows "\<exists>old sp p2 w2 new.
           files w out = Some old \<and> check_sparse (path p) w = Inr sp
           \<and> (if sp then unsparse_partition (p\<lparr>start := Some (str (int (length old) div 512))\<rparr>)
               else ret (p\<lparr>start := Some (str (int (length old) div 512))\<rparr>)) w = (Inr p2, w2)
           \<and> write_partition p2 out (int (length old) div 1024 div 1024) w2 = (Inr (), w')
           \<and> files w' out = Some new
           \<and> p' = p2\<lparr>endp := Some (str (int (length new) div 512 - 1))\<rparr>"
proof -
  from assms obtain before sp p2 w2 after where
    b: "getsize out w = Inr before" and
    c: "check_sparse (path p) w = Inr sp" and
    u: "(if sp then unsparse_partition (p\<lparr>start := Some (str (before div 512))\<rparr>)
         else ret (p\<lparr>start := Some (str (before div 512))\<rparr>)) w = (Inr p2, w2)" and
    d: "write_partition p2 out (before div 1024 div 1024) w2 = (Inr (), w')" and
    a: "getsize out w' = Inr after" and
    p': "p' = p2\<lparr>endp := Some (str (after div 512 - 1))\<rparr>"
    by (auto simp: place_def seq_Inr_iff lift_Inr_iff ret_iff Let_def)
  from b obtain old where o: "files w out = Some old" "before = int (length old)"
    by (auto simp: getsize_Inr)
  from a obtain new where n: "files w' out = Some new" "after = int (length new)"
    by (auto simp: getsize_Inr)
  show ?thesis
    using o(1) c u d n(1) p' unfolding o(2) n(2) by blast
qed

lemma place_plain:
  assumes "place p out w = (Inr p', w')" and "check_sparse (path p) w = Inr False"
  shows "\<exists>old content.
           files w out = Some old \<and> files w (path p) = Some content \<and> content \<noteq> []
           \<and> fault w (length (trace w)) = None
           \<and> w' = w\<lparr>trace := trace w @ [dd_comm (path p) out (int (length old) div 1024 div 1024)],
                    files := (files w)(out \<mapsto> copied old content)\<rparr>
           \<and> p' = p\<lparr>start := Some (str (int (length old) div 512)),
                    endp := Some (str (int (length (copied old content)) div 512 - 1))\<rparr>"
proof -
  from place_unfold [OF assms(1)] assms(2) obtain old w2 new p2 where
    o: "files w out = Some old" and
    u: "ret (p\<lparr>start := Some (str (int (length old) div 512))\<rparr>) w = (Inr p2, w2)" and
    d: "write_partition p2 out (int (length old) div 1024 div 1024) w2 = (Inr (), w')" and
    n: "files w' out = Some new" and
    p': "p' = p2\<lparr>endp := Some (str (int (length new) div 512 - 1))\<rparr>"
    by auto
  from check_sparse_Inr [OF assms(2)] obtain content where
    c: "files w (path p) = Some content" "content \<noteq> []" by blast
  from u have e: "p2 = p\<lparr>start := Some (str (int (length old) div 512))\<rparr>" "w2 = w"
    by (auto simp: ret_iff)
  from d e c o have
    w': "fault w (length (trace w)) = None"
        "w' = w\<lparr>trace := trace w @ [dd_comm (path p) out (int (length old) div 1024 div 1024)],
                files := (files w)(out \<mapsto> copied old content)\<rparr>"
    by (auto simp: write_partition_Inr dd_comm_def copied_def)
  from n w' have "new = copied old content" by simp
  with o c w' p' e show ?thesis by simp
qed

lemma place_sparse:
  assumes "place p out w = (Inr p', w')" and "check_sparse (path p) w = Inr True"
  shows "\<exists>old content n tmp raw.
           files w out = Some old \<and> files w (path p) = Some content
           \<and> files w tmp = None \<and> n \<notin> set (open_fds w) \<and> unsparse_raw w content = Some raw
           \<and> w' = w\<lparr>files := (files w)(tmp \<mapsto> raw, out \<mapsto> copied old raw),
                    open_fds := n # open_fds w,
                    trace := trace w @ [[environ_get w ''SIMG2IMG'' ''simg2img'', path p, tmp],
                                        dd_comm tmp out (int (length old) div 1024 div 1024)]\<rparr>
           \<and> p' = p\<lparr>start := Some (str (int (length old) div 512)), fd := Some n, path := tmp,
                    endp := Some (str (int (length (copied old raw)) div 512 - 1))\<rparr>"
proof -
  from place_unfold [OF assms(1)] assms(2) obtain old w2 new p2 where
    o: "files w out = Some old" and
    u: "unsparse_partition (p\<lparr>start := Some (str (int (length old) div 512))\<rparr>) w = (Inr p2, w2)" and
    d: "write_partition p2 out (int (length old) div 1024 div 1024) w2 = (Inr (), w')" and
    n: "files w' out = Some new" and
    p': "p' = p2\<lparr>endp := Some (str (int (length new) div 512 - 1))\<rparr>"
    by auto
  from check_sparse_Inr [OF assms(2)] obtain content where
    c: "files w (path p) = Some content" by blast
  from unsparse_partition_Inr [OF u, of content] c obtain k tmp raw where
    t: "files w tmp = None" "k \<notin> set (open_fds w)" "unsparse_raw w content = Some raw"
       "p2 = p\<lparr>start := Some (str (int (length old) div 512)), fd := Some k, path := tmp\<rparr>"
       "w2 = w\<lparr>files := (files w)(tmp \<mapsto> raw), open_fds := k # open_fds w,
                trace := trace w @ [[environ_get w ''SIMG2IMG'' ''simg2img'', path p, tmp]]\<rparr>"
    by auto
  from o t(1) have ne: "tmp \<noteq> out" by auto
  from d t(4,5) ne o have
    w': "w' = w\<lparr>files := (files w)(tmp \<mapsto> raw, out \<mapsto> copied old raw),
                open_fds := k # open_fds w,
                trace := trace w @ [[environ_get w ''SIMG2IMG'' ''simg2img'', path p, tmp],
                                    dd_comm tmp out (int (length old) div 1024 div 1024)]\<rparr>"
    by (auto simp: write_partition_Inr dd_comm_def copied_def)
  from n w' have "new = copied old raw" by simp
  with o c t w' p' show ?thesis by blast
qed

lemma sync_pad_Nil: "sync_pad bs [] = []"
  by (simp add: sync_pad_def)

lemma length_sync_pad:
  assumes "0 < bs" and "data \<noteq> []"
  shows "\<exists>k. 0 < k \<and> length (sync_pad bs data) = k * bs"
proof (cases "length data mod bs = 0")
  case True
  then have "bs dvd length data" by (simp add: dvd_eq_mod_eq_0)
  then obtain k where k: "length data = k * bs" by (auto simp: dvd_def mult.commute)
  with assms have "0 < k" by (cases k) auto
  moreover have "length (sync_pad bs data) = k * bs"
    using True k assms by (simp add: sync_pad_def)
  ultimately show ?thesis by blast
next
  case False
  let ?n = "length data"
  have lt: "?n mod bs < bs" using assms by simp
  then have m: "(bs - ?n mod bs) mod bs = bs - ?n mod bs"
    using False by simp
  define q where "q = ?n div bs * bs"
  define r where "r = ?n mod bs"
  have n: "?n = q + r" by (simp add: q_def r_def)
  have "r < bs" using lt by (simp add: r_def)
  with n have "?n + (bs - r) = q + bs" by arith
  also have "\<dots> = (?n div bs + 1) * bs" by (simp add: q_def algebra_simps)
  finally have "length (sync_pad bs data) = (?n div bs + 1) * bs"
    by (simp add: sync_pad_def m r_def)
  then show ?thesis by (intro exI [of _ "?n div bs + 1"]) simp
qed

lemma sync_pad_nonempty: "data \<noteq> [] \<Longrightarrow> sync_pad bs data \<noteq> []"
  by (simp add: sync_pad_def)

lemma length_write_at:
  "data \<noteq> [] \<Longrightarrow> length (write_at old off data) = max (length old) (off + length data)"
  by (auto simp: write_at_def)

lemma seek_blocks: "nat (int n div 1024 div 1024) = n div 1048576"
proof -
  have "int n div 1024 div 1024 = int (n div 1024 div 1024)"
    by (simp add: zdiv_int)
  also have "n div 1024 div 1024 = n div (1024 * 1024)"
    by (simp add: div_mult2_eq)
  finally show ?thesis by simp
qed

lemma copied_Nil: "copied old [] = old"
  by (simp add: copied_def sync_pad_Nil write_at_def)

lemma length_copied:
  assumes "data \<noteq> []"
  shows "\<exists>m. length old < m * MiB \<and> length (copied old data) = m * MiB"
proof -
  have pos: "0 < MiB" by (simp add: MiB_def)
  from length_sync_pad [OF pos assms] obtain k where
    k: "0 < k" "length (sync_pad MiB data) = k * MiB" by blast
  let ?q = "length old div MiB"
  have off: "nat (int (length old) div 1024 div 1024) * MiB = ?q * MiB"
    by (simp add: seek_blocks MiB_def)
  have "length old < ?q * MiB + MiB"
    using pos by (metis add.commute dividend_less_div_times)
  also have "\<dots> \<le> ?q * MiB + k * MiB" using k(1) by simp
  finally have lt: "length old < (?q + k) * MiB" by (simp add: algebra_simps)
  have "length (copied old data) = max (length old) (?q * MiB + k * MiB)"
    unfolding copied_def off
    using length_write_at [OF sync_pad_nonempty [OF assms]] k(2) by simp
  also have "\<dots> = (?q + k) * MiB" using lt by (simp add: algebra_simps)
  finally show ?thesis using lt by blast
qed

lemma sectors_grow:
  assumes "data \<noteq> []"
  shows "int (length old) div 512 \<le> int (length (copied old data)) div 512 - 1"
proof -
  from length_copied [OF assms] obtain m where
    m: "length old < m * MiB" "length (copied old data) = m * MiB" by blast
  have e: "m * MiB = (m * 2048) * 512" by (simp add: MiB_def)
  have "length (copied old data) div 512 = (m * 2048) * 512 div 512"
    using m(2) e by simp
  then have n: "length (copied old data) div 512 = m * 2048" by simp
  have "length old div 512 < m * 2048"
    using m(1) e by (simp add: div_less_iff_less_mult)
  then have "int (length old div 512) < int (length (copied old data) div 512)"
    using n by simp
  then show ?thesis by (simp add: zdiv_int)
qed

lemma check_sparse_bool: "check_sparse f w = Inr sp \<Longrightarrow> sp = True \<or> sp = False"
  by simp

lemma place_step:
  assumes "place p out w = (Inr p', w')"
  shows "\<exists>old data.
           files w out = Some old \<and> files w' out = Some (copied old data)
           \<and> (data = [] \<longrightarrow> (\<exists>content. unsparse_raw w content = Some []))
           \<and> sectors p' (int (length old) div 512, int (length (copied old data)) div 512 - 1)
           \<and> num p' = num p \<and> label p' = label p
           \<and> environ w' = environ w \<and> unsparse_raw w' = unsparse_raw w
           \<and> fault w' = fault w \<and> tmp_names w' = tmp_names w
           \<and> (\<exists>cmds. trace w' = trace w @ cmds)
           \<and> ((fd p' = fd p \<and> path p' = path p \<and> open_fds w' = open_fds w
                \<and> (\<forall>q. q \<noteq> out \<longrightarrow> files w' q = files w q))
               \<or> (\<exists>n. fd p' = Some n \<and> n \<notin> set (open_fds w) \<and> open_fds w' = n # open_fds w
                     \<and> files w (path p') = None \<and> files w' (path p') \<noteq> None
                     \<and> (\<forall>q. q \<noteq> out \<and> q \<noteq> path p' \<longrightarrow> files w' q = files w q)))"
proof -
  from place_unfold [OF assms] obtain sp where sp: "check_sparse (path p) w = Inr sp"
    by blast
  show ?thesis
  proof (cases sp)
    case False
    with sp have "check_sparse (path p) w = Inr False" by simp
    from place_plain [OF assms this] obtain old content where
      f: "files w out = Some old" "content \<noteq> []"
         "w' = w\<lparr>trace := trace w @ [dd_comm (path p) out (int (length old) div 1024 div 1024)],
                 files := (files w)(out \<mapsto> copied old content)\<rparr>"
         "p' = p\<lparr>start := Some (str (int (length old) div 512)),
                 endp := Some (str (int (length (copied old content)) div 512 - 1))\<rparr>"
      by blast
    show ?thesis
      by (rule exI [of _ old], rule exI [of _ content]) (simp add: f sectors_def)
  next
    case True
    with sp have "check_sparse (path p) w = Inr True" by simp
    from place_sparse [OF assms this] obtain old content n tmp raw where
      f: "files w out = Some old" "files w tmp = None" "n \<notin> set (open_fds w)"
         "unsparse_raw w content = Some raw"
         "w' = w\<lparr>files := (files w)(tmp \<mapsto> raw, out \<mapsto> copied old raw),
                  open_fds := n # open_fds w,
                  trace := trace w @ [[environ_get w ''SIMG2IMG'' ''simg2img'', path p, tmp],
                                      dd_comm tmp out (int (length old) div 1024 div 1024)]\<rparr>"
         "p' = p\<lparr>start := Some (str (int (length old) div 512)), fd := Some n, path := tmp,
                  endp := Some (str (int (length (copied old raw)) div 512 - 1))\<rparr>"
      by blast
    from f(1,2) have ne: "tmp \<noteq> out" by auto
    have e: "raw = [] \<longrightarrow> (\<exists>content. unsparse_raw w content = Some [])"
      using f(4) by auto
    show ?thesis
      by (rule exI [of _ old], rule exI [of _ raw]) (simp add: f sectors_def ne e)
  qed
qed

lemma temp_fds_Cons: "temp_fds (p # ps) = (case fd p of None \<Rightarrow> {} | Some n \<Rightarrow> {n}) \<union> temp_fds ps"
  by (auto simp: temp_fds_def split: option.splits)

lemma temp_paths_Cons:
  "temp_paths (p # ps) = (if fd p = None then {} else {path p}) \<union> temp_paths ps"
  by (auto simp: temp_paths_def)

lemma compose_Cons_Inr:
  "compose (p # rest) out w = (Inr placed, w'') \<longleftrightarrow>
     (\<exists>p' ps' w'. place p out w = (Inr p', w') \<and> compose rest out w' = (Inr ps', w'')
        \<and> placed = p' # ps')"
  by (auto simp: seq_Inr_iff ret_iff)

lemma compose_frame:
  assumes "compose ps out w = (Inr placed, w')" and "files w out \<noteq> None"
  shows "map num placed = map num ps \<and> map label placed = map label ps
         \<and> (\<forall>p \<in> set placed. start p \<noteq> None \<and> endp p \<noteq> None)
         \<and> environ w' = environ w \<and> unsparse_raw w' = unsparse_raw w
         \<and> fault w' = fault w \<and> tmp_names w' = tmp_names w
         \<and> (\<exists>cmds. trace w' = trace w @ cmds)
         \<and> files w' out \<noteq> None
         \<and> set (open_fds w') \<subseteq> set (open_fds w) \<union> temp_fds placed
         \<and> (\<forall>q. files w' q \<noteq> None \<longrightarrow> files w q \<noteq> None \<or> q \<in> temp_paths placed)"
  using assms
proof (induction ps arbitrary: w placed)
  case Nil
  then show ?case by (auto simp: ret_iff)
next
  case (Cons p rest)
  from Cons.prems(1) obtain p' ps' w1 where
    s: "place p out w = (Inr p', w1)" "compose rest out w1 = (Inr ps', w')" "placed = p' # ps'"
    unfolding compose_Cons_Inr by blast
  from place_step [OF s(1)] obtain old data where
    f: "files w out = Some old" "files w1 out = Some (copied old data)"
       "sectors p' (int (length old) div 512, int (length (copied old data)) div 512 - 1)"
       "num p' = num p" "label p' = label p"
       "environ w1 = environ w" "unsparse_raw w1 = unsparse_raw w"
       "fault w1 = fault w" "tmp_names w1 = tmp_names w"
       "\<exists>cmds. trace w1 = trace w @ cmds"
       "(fd p' = fd p \<and> path p' = path p \<and> open_fds w1 = open_fds w
                \<and> (\<forall>q. q \<noteq> out \<longrightarrow> files w1 q = files w q))
               \<or> (\<exists>n. fd p' = Some n \<and> n \<notin> set (open_fds w) \<and> open_fds w1 = n # open_fds w
                     \<and> files w (path p') = None \<and> files w1 (path p') \<noteq> None
                     \<and> (\<forall>q. q \<noteq> out \<and> q \<noteq> path p' \<longrightarrow> files w1 q = files w q))"
    by blast
  from f(2) have o1: "files w1 out \<noteq> None" by simp
  note ih = Cons.IH [OF s(2) o1]
  have 1: "map num placed = map num (p # rest) \<and> map label placed = map label (p # rest)"
    using ih s(3) f(4,5) by simp
  have 2: "\<forall>p \<in> set placed. start p \<noteq> None \<and> endp p \<noteq> None"
    using ih s(3) f(3) by (simp add: sectors_def)
  have 3: "environ w' = environ w \<and> unsparse_raw w' = unsparse_raw w
         \<and> fault w' = fault w \<and> tmp_names w' = tmp_names w"
    using ih f(6-9) by simp
  have 4: "\<exists>cmds. trace w' = trace w @ cmds"
    using ih f(10) by auto
  have 5: "files w' out \<noteq> None" using ih by simp
  have 6: "set (open_fds w') \<subseteq> set (open_fds w) \<union> temp_fds placed"
  proof
    fix n assume "n \<in> set (open_fds w')"
    with ih have "n \<in> set (open_fds w1) \<or> n \<in> temp_fds ps'" by blast
    then show "n \<in> set (open_fds w) \<union> temp_fds placed"
    proof
      assume n1: "n \<in> set (open_fds w1)"
      from f(11) show ?thesis
      proof
        assume "fd p' = fd p \<and> path p' = path p \<and> open_fds w1 = open_fds w
                \<and> (\<forall>q. q \<noteq> out \<longrightarrow> files w1 q = files w q)"
        with n1 show ?thesis by simp
      next
        assume "\<exists>n. fd p' = Some n \<and> n \<notin> set (open_fds w) \<and> open_fds w1 = n # open_fds w
                     \<and> files w (path p') = None \<and> files w1 (path p') \<noteq> None
                     \<and> (\<forall>q. q \<noteq> out \<and> q \<noteq> path p' \<longrightarrow> files w1 q = files w q)"
        then obtain k where k: "fd p' = Some k" "open_fds w1 = k # open_fds w" by blast
        with n1 s(3) show ?thesis by (auto simp: temp_fds_Cons)
      qed
    next
      assume "n \<in> temp_fds ps'"
      then show ?thesis using s(3) by (simp add: temp_fds_Cons)
    qed
  qed
  have 7: "\<forall>q. files w' q \<noteq> None \<longrightarrow> files w q \<noteq> None \<or> q \<in> temp_paths placed"
  proof (intro allI impI)
    fix q assume "files w' q \<noteq> None"
    with ih have "files w1 q \<noteq> None \<or> q \<in> temp_paths ps'" by blast
    then show "files w q \<noteq> None \<or> q \<in> temp_paths placed"
    proof
      assume q1: "files w1 q \<noteq> None"
      show ?thesis
      proof (cases "q = out")
        case True
        then show ?thesis using f(1) by simp
      next
        case False
        from f(11) show ?thesis
        proof
          assume "fd p' = fd p \<and> path p' = path p \<and> open_fds w1 = open_fds w
                \<and> (\<forall>q. q \<noteq> out \<longrightarrow> files w1 q = files w q)"
          with q1 False show ?thesis by simp
        next
          assume "\<exists>n. fd p' = Some n \<and> n \<notin> set (open_fds w) \<and> open_fds w1 = n # open_fds w
                     \<and> files w (path p') = None \<and> files w1 (path p') \<noteq> None
                     \<and> (\<forall>q. q \<noteq> out \<and> q \<noteq> path p' \<longrightarrow> files w1 q = files w q)"
          then obtain n where n: "fd p' = Some n"
            "\<forall>q. q \<noteq> out \<and> q \<noteq> path p' \<longrightarrow> files w1 q = files w q" by blast
          show ?thesis
          proof (cases "q = path p'")
            case True
            then show ?thesis using n(1) s(3) by (simp add: temp_paths_Cons)
          next
            case F2: False
            with n(2) False q1 show ?thesis by simp
          qed
        qed
      qed
    next
      assume "q \<in> temp_paths ps'"
      then show ?thesis using s(3) by (simp add: temp_paths_Cons)
    qed
  qed
  show ?case using 1 2 3 4 5 6 7 by blast
qed

lemma tiled_bounds:
  "tiled lo secs hi \<Longrightarrow> lo \<le> hi \<and> (\<forall>se \<in> set secs. lo \<le> fst se \<and> fst se \<le> snd se \<and> snd se < hi)"
proof (induction secs arbitrary: lo)
  case Nil
  then show ?case by simp
next
  case (Cons a secs)
  obtain s e where a: "a = (s, e)" by (cases a)
  with Cons.prems have p: "s = lo" "s \<le> e" "tiled (e + 1) secs hi" by simp_all
  from Cons.IH [OF p(3)] have ih: "e + 1 \<le> hi"
    "\<forall>se \<in> set secs. e + 1 \<le> fst se \<and> fst se \<le> snd se \<and> snd se < hi" by simp_all
  show ?case using a p(1,2) ih by auto
qed

lemma tiled_sorted: "tiled lo secs hi \<Longrightarrow> sorted_wrt (\<lambda>a b. snd a < fst b) secs"
proof (induction secs arbitrary: lo)
  case Nil
  then show ?case by simp
next
  case (Cons a secs)
  obtain s e where a: "a = (s, e)" by (cases a)
  with Cons.prems have p: "tiled (e + 1) secs hi" by simp
  from tiled_bounds [OF p] have "\<forall>se \<in> set secs. e < fst se" by auto
  with Cons.IH [OF p] a show ?case by simp
qed

lemma compose_tiled:
  assumes "compose ps out w = (Inr placed, w')" and "files w out = Some old"
    and "\<forall>bs. unsparse_raw w bs \<noteq> Some []"
  shows "\<exists>secs new. files w' out = Some new \<and> list_all2 sectors placed secs
           \<and> tiled (int (length old) div 512) secs (int (length new) div 512)"
  using assms
proof (induction ps arbitrary: w placed old)
  case Nil
  then have "placed = []" "w' = w" by (auto simp: ret_iff)
  with Nil.prems(2) show ?case by (intro exI [of _ "[]"] exI [of _ old]) simp
next
  case (Cons p rest)
  from Cons.prems(1) obtain p' ps' w1 where
    s: "place p out w = (Inr p', w1)" "compose rest out w1 = (Inr ps', w')" "placed = p' # ps'"
    unfolding compose_Cons_Inr by blast
  from place_step [OF s(1)] Cons.prems(2) obtain data where
    f: "files w1 out = Some (copied old data)"
       "data = [] \<longrightarrow> (\<exists>content. unsparse_raw w content = Some [])"
       "sectors p' (int (length old) div 512, int (length (copied old data)) div 512 - 1)"
       "unsparse_raw w1 = unsparse_raw w"
    by auto
  from f(2) Cons.prems(3) have ne: "data \<noteq> []" by auto
  have u1: "\<forall>bs. unsparse_raw w1 bs \<noteq> Some []" using f(4) Cons.prems(3) by simp
  from Cons.IH [OF s(2) f(1) u1] obtain secs new where
    ih: "files w' out = Some new" "list_all2 sectors ps' secs"
        "tiled (int (length (copied old data)) div 512) secs (int (length new) div 512)"
    by blast
  let ?se = "(int (length old) div 512, int (length (copied old data)) div 512 - 1)"
  have "tiled (int (length old) div 512) (?se # secs) (int (length new) div 512)"
    using sectors_grow [OF ne, of old] ih(3) by simp
  moreover have "list_all2 sectors placed (?se # secs)"
    using s(3) f(3) ih(2) by simp
  ultimately show ?case using ih(1) by blast
qed

lemma add_partition_Inr:
  assumes "add_partition p out w = (Inr (), w')"
  shows "table_entry (environ_get w ''SGDISK'' ''sgdisk'') out p (last (trace w'))
         \<and> trace w' = trace w @ [last (trace w')]
         \<and> (\<forall>q. q \<noteq> out \<longrightarrow> files w' q = files w q)
         \<and> files w out \<noteq> None \<and> files w' out \<noteq> None
         \<and> open_fds w' = open_fds w \<and> environ w' = environ w"
proof -
  let ?g = "environ_get w ''SGDISK'' ''sgdisk''"
  from assms obtain s e where se: "start p = Some s" "endp p = Some e"
    by (auto simp: add_partition_def Let_def split: option.splits)
  with assms have
    "shell_command (add_partition_comm ?g p s e out)
       (sgdisk_run (butlast (tl (add_partition_comm ?g p s e out))) out) w = (Inr (), w')"
    by (simp add: add_partition_def Let_def)
  then obtain fs where
    fs: "sgdisk_run (butlast (tl (add_partition_comm ?g p s e out))) out w = Some fs"
        "w' = w\<lparr>trace := trace w @ [add_partition_comm ?g p s e out], files := fs\<rparr>"
    by (auto simp: shell_command_Inr_iff)
  from fs(1) obtain b b' where b: "files w out = Some b" "fs = (files w)(out \<mapsto> b')"
    by (auto simp: sgdisk_run_def split: option.splits)
  show ?thesis
    using se fs(2) b by (simp add: table_entry_def add_partition_comm_def Let_def)
qed

lemma cleanup_Inr:
  assumes "cleanup p w = (Inr (), w')"
  shows "trace w' = trace w \<and> environ w' = environ w
         \<and> (case fd p of
               None \<Rightarrow> open_fds w' = open_fds w \<and> files w' = files w
             | Some n \<Rightarrow> open_fds w' = removeAll n (open_fds w)
                          \<and> files w' = (files w)(path p := None))"
proof (cases "fd p")
  case None
  with assms show ?thesis by (simp add: cleanup_def ret_iff)
next
  case (Some n)
  with assms obtain w1 where
    c: "os_close n w = (Inr (), w1)" "os_remove (path p) w1 = (Inr (), w')"
    by (auto simp: cleanup_def seq_Inr_iff)
  from c(1) have w1: "w1 = w\<lparr>open_fds := removeAll n (open_fds w)\<rparr>"
    by (auto simp: os_close_def split: if_splits)
  from c(2) have "w' = w1\<lparr>files := (files w1)(path p := None)\<rparr>"
    by (auto simp: os_remove_def split: option.splits)
  with w1 Some show ?thesis by simp
qed

lemma write_table_Cons_Inr:
  "write_table (p # rest) out w = (Inr (), w'') \<longleftrightarrow>
     (\<exists>w1 w2. add_partition p out w = (Inr (), w1) \<and> cleanup p w1 = (Inr (), w2)
        \<and> write_table rest out w2 = (Inr (), w''))"
  by (auto simp: seq_Inr_iff)

lemma write_table_Inr:
  assumes "write_table ps out w = (Inr (), w')"
  shows "\<exists>cmds. trace w' = trace w @ cmds
           \<and> list_all2 (table_entry (environ_get w ''SGDISK'' ''sgdisk'') out) ps cmds
           \<and> environ w' = environ w
           \<and> set (open_fds w') \<subseteq> set (open_fds w) - temp_fds ps
           \<and> (\<forall>q. files w' q \<noteq> None \<longrightarrow> files w q \<noteq> None \<and> q \<notin> temp_paths ps)"
  using assms
proof (induction ps arbitrary: w)
  case Nil
  then show ?case by (auto simp: ret_iff temp_fds_def temp_paths_def)
next
  case (Cons p rest)
  from Cons.prems obtain w1 w2 where
    s: "add_partition p out w = (Inr (), w1)" "cleanup p w1 = (Inr (), w2)"
       "write_table rest out w2 = (Inr (), w')"
    unfolding write_table_Cons_Inr by blast
  let ?g = "environ_get w ''SGDISK'' ''sgdisk''"
  from add_partition_Inr [OF s(1)] have
    a0: "\<forall>q. q \<noteq> out \<longrightarrow> files w1 q = files w q" "files w out \<noteq> None"
    by simp_all
  have a3: "\<forall>q. files w1 q \<noteq> None \<longrightarrow> files w q \<noteq> None"
  proof (intro allI impI)
    fix q assume "files w1 q \<noteq> None"
    then show "files w q \<noteq> None" using a0 by (cases "q = out") simp_all
  qed
  from add_partition_Inr [OF s(1)] have
    a: "table_entry ?g out p (last (trace w1))" "trace w1 = trace w @ [last (trace w1)]"
       "open_fds w1 = open_fds w" "open_fds w1 = open_fds w" "environ w1 = environ w"
    by simp_all
  from cleanup_Inr [OF s(2)] have
    c: "trace w2 = trace w1" "environ w2 = environ w1"
       "case fd p of None \<Rightarrow> open_fds w2 = open_fds w1 \<and> files w2 = files w1
        | Some n \<Rightarrow> open_fds w2 = removeAll n (open_fds w1) \<and> files w2 = (files w1)(path p := None)"
    by simp_all
  have g2: "environ_get w2 ''SGDISK'' ''sgdisk'' = ?g"
    using a(5) c(2) by (simp add: environ_get_def)
  from Cons.IH [OF s(3)] obtain cmds where
    ih: "trace w' = trace w2 @ cmds" "list_all2 (table_entry ?g out) rest cmds"
        "environ w' = environ w2" "set (open_fds w') \<subseteq> set (open_fds w2) - temp_fds rest"
        "\<forall>q. files w' q \<noteq> None \<longrightarrow> files w2 q \<noteq> None \<and> q \<notin> temp_paths rest"
    unfolding g2 by blast
  have 1: "trace w' = trace w @ (last (trace w1) # cmds)"
    using ih(1) c(1) a(2) by (metis append.assoc append_Cons append_Nil)
  have 2: "list_all2 (table_entry ?g out) (p # rest) (last (trace w1) # cmds)"
    using a(1) ih(2) by simp
  have 3: "environ w' = environ w" using ih(3) c(2) a(5) by simp
  have 4: "set (open_fds w') \<subseteq> set (open_fds w) - temp_fds (p # rest)"
    using ih(4) c(3) a(4) by (cases "fd p") (auto simp: temp_fds_Cons)
  have 5: "\<forall>q. files w' q \<noteq> None \<longrightarrow> files w q \<noteq> None \<and> q \<notin> temp_paths (p # rest)"
  proof (intro allI impI)
    fix q assume "files w' q \<noteq> None"
    with ih(5) have q2: "files w2 q \<noteq> None" "q \<notin> temp_paths rest" by auto
    show "files w q \<noteq> None \<and> q \<notin> temp_paths (p # rest)"
    proof (cases "fd p")
      case None
      with c(3) have "files w2 = files w1" by simp
      with q2(1) a3 have "files w q \<noteq> None" by simp
      with q2(2) None show ?thesis by (simp add: temp_paths_Cons)
    next
      case (Some n)
      with c(3) have "files w2 = (files w1)(path p := None)" by simp
      with q2(1) have "q \<noteq> path p" "files w1 q \<noteq> None" by (auto split: if_splits)
      with a3 q2(2) Some show ?thesis by (simp add: temp_paths_Cons)
    qed
  qed
  show ?case using 1 2 3 4 5 by blast
qed

lemma build_partitions_Inr:
  assumes "build_partitions w nl used acc ds = Inr ps"
  shows "map entry_key ps = map entry_key acc @ map declared ds
         \<and> (distinct (map num acc) \<and> num ` set acc \<subseteq> used \<longrightarrow> distinct (map num ps))"
  using assms
proof (induction ds arbitrary: used acc)
  case Nil
  then show ?case by simp
next
  case (Cons l ls)
  from Cons.prems obtain l0 l1 l2 where l: "l = [l0, l1, l2]"
    by (auto split: list.splits)
  from Cons.prems l obtain sz where sz: "getsize l0 w = Inr sz"
    by (cases "getsize l0 w") auto
  from Cons.prems l sz obtain n where n: "py_int 10 l2 = Inr n"
    by (cases "py_int 10 l2") auto
  let ?p = "\<lparr>path = l0, label = l1, sizeByMb = str (ceil_mb sz), num = n,
             start = None, endp = None, fd = None\<rparr>"
  from Cons.prems l sz n have
    nu: "n \<notin> used" and
    r: "build_partitions w nl (insert n used) (acc @ [?p]) ls = Inr ps"
    by (auto split: if_splits)
  from Cons.IH [OF r] have
    ih: "map entry_key ps = map entry_key (acc @ [?p]) @ map declared ls"
        "distinct (map num (acc @ [?p])) \<and> num ` set (acc @ [?p]) \<subseteq> insert n used
           \<longrightarrow> distinct (map num ps)"
    by simp_all
  have 1: "map entry_key ps = map entry_key acc @ map declared (l # ls)"
    using ih(1) l n by (simp add: entry_key_def declared_def)
  have 2: "distinct (map num acc) \<and> num ` set acc \<subseteq> used \<longrightarrow> distinct (map num ps)"
  proof
    assume a: "distinct (map num acc) \<and> num ` set acc \<subseteq> used"
    with nu have "n \<notin> num ` set acc" by auto
    with a have "distinct (map num (acc @ [?p])) \<and> num ` set (acc @ [?p]) \<subseteq> insert n used"
      by auto
    with ih(2) show "distinct (map num ps)" by simp
  qed
  show ?case using 1 2 by simp
qed

lemma parse_input_Inr:
  assumes "parse_input input_file w = Inr partitions"
  shows "sorted_wrt (<) (map num partitions)
         \<and> entry_key ` set partitions
             = declared ` set (parsed_lines (environ w) (readlines input_file))"
proof -
  let ?ds = "parsed_lines (environ w) (readlines input_file)"
  from assms obtain ps where
    b: "build_partitions w (length (readlines input_file)) {} [] ?ds = Inr ps" and
    p: "partitions = sort_key num ps"
    by (auto simp: parse_input_def Let_def split: sum.splits)
  from build_partitions_Inr [OF b] have
    m: "map entry_key ps = map declared ?ds" and d: "distinct (map num ps)"
    by simp_all
  have "sorted (map num partitions)" unfolding p by (rule sorted_sort_key)
  moreover have "distinct (map num partitions)"
    using d unfolding p by (simp add: distinct_map)
  ultimately have 1: "sorted_wrt (<) (map num partitions)"
    by (simp add: strict_sorted_iff)
  have "entry_key ` set partitions = set (map entry_key ps)" unfolding p by simp
  also have "\<dots> = declared ` set ?ds" unfolding m by simp
  finally show ?thesis using 1 by simp
qed

lemma combine_Inr:
  assumes "combine ps out w = (Inr r, w')"
  shows "r = General \<and>
         (\<exists>placed w2 old2 w4.
            compose ps out (stub out w) = (Inr placed, w2) \<and> files w2 out = Some old2
            \<and> trace w4 = trace w2 @
                 [[''dd'', ''if=/dev/zero'', ''of='' @ out, ''conv=notrunc'', ''bs=1024k'',
                   ''count=1'', ''seek='' @ str (int (length old2) div 1024 div 1024)],
                  [environ_get w2 ''SGDISK'' ''sgdisk'', ''--clear'', out]]
            \<and> open_fds w4 = open_fds w2 \<and> environ w4 = environ w2
            \<and> (\<forall>q. q \<noteq> out \<longrightarrow> files w4 q = files w2 q)
            \<and> write_table placed out w4 = (Inr (), w'))"
proof -
  from assms obtain w1 placed w2 sz w3 w4 where
    a: "shell_command [''dd'', ''if=/dev/zero'', ''of='' @ out, ''ibs=1024k'', ''count=1'']
          (dd_zero_create out) w = (Inr (), w1)" and
    b: "compose ps out w1 = (Inr placed, w2)" and
    c: "getsize out w2 = Inr sz" and
    d: "shell_command [''dd'', ''if=/dev/zero'', ''of='' @ out, ''conv=notrunc'', ''bs=1024k'',
                       ''count=1'', ''seek='' @ str (sz div 1024 div 1024)]
          (dd_zero_at out (nat (sz div 1024 div 1024))) w2 = (Inr (), w3)" and
    e: "clear_partition_table out w3 = (Inr (), w4)" and
    f: "write_table placed out w4 = (Inr (), w')" and
    r: "r = General"
    by (auto simp: combine_def seq_Inr_iff lift_Inr_iff ret_iff Let_def)
  from a have w1: "w1 = stub out w"
    by (auto simp: shell_command_Inr_iff dd_zero_create_def stub_def)
  from c obtain old2 where o: "files w2 out = Some old2" "sz = int (length old2)"
    by (auto simp: getsize_Inr)
  from d o have w3: "w3 = w2\<lparr>trace := trace w2 @
                        [[''dd'', ''if=/dev/zero'', ''of='' @ out, ''conv=notrunc'', ''bs=1024k'',
                          ''count=1'', ''seek='' @ str (int (length old2) div 1024 div 1024)]],
                      files := (files w2)(out \<mapsto>
                         write_at old2 (nat (int (length old2) div 1024 div 1024) * MiB)
                           (replicate MiB 0))\<rparr>"
    by (auto simp: shell_command_Inr_iff dd_zero_at_def Let_def)
  from e obtain fs where
    fs: "sgdisk_run [''--clear''] out w3 = Some fs"
        "w4 = w3\<lparr>trace := trace w3 @ [[environ_get w3 ''SGDISK'' ''sgdisk'', ''--clear'', out]],
                 files := fs\<rparr>"
    by (auto simp: clear_partition_table_def Let_def shell_command_Inr_iff)
  from fs(1) obtain b' where b': "fs = (files w3)(out \<mapsto> b')"
    by (auto simp: sgdisk_run_def split: option.splits)
  have g: "environ_get w3 ''SGDISK'' ''sgdisk'' = environ_get w2 ''SGDISK'' ''sgdisk''"
    using w3 by (simp add: environ_get_def)
  have "trace w4 = trace w2 @
                 [[''dd'', ''if=/dev/zero'', ''of='' @ out, ''conv=notrunc'', ''bs=1024k'',
                   ''count=1'', ''seek='' @ str (int (length old2) div 1024 div 1024)],
                  [environ_get w2 ''SGDISK'' ''sgdisk'', ''--clear'', out]]"
       "open_fds w4 = open_fds w2" "environ w4 = environ w2"
       "\<forall>q. q \<noteq> out \<longrightarrow> files w4 q = files w2 q"
    using fs(2) b' w3 g by simp_all
  with b f o(1) r w1 show ?thesis by blast
qed

lemma shortcut_existing_route: "shortcut_existing ps out w = (Inr r, w') \<Longrightarrow> r = FastExisting"
  by (auto simp: shortcut_existing_def seq_Inr_iff ret_iff raise_def split: list.splits)

lemma shortcut_template_route:
  "shortcut_template p0 p1 h t out w = (Inr r, w') \<Longrightarrow> r = FastTemplate"
  by (auto simp: shortcut_template_def seq_Inr_iff ret_iff)

lemma main_general:
  assumes "main args_input args_output script_dir w = (Inr General, w')"
  shows "\<exists>config manifest partitions.
           files (after_rm (expandvars (environ w) args_output) w) args_input = Some config
           \<and> codec w config = Some manifest
           \<and> parse_input manifest (after_rm (expandvars (environ w) args_output) w) = Inr partitions
           \<and> combine partitions (expandvars (environ w) args_output)
                (after_rm (expandvars (environ w) args_output) w) = (Inr General, w')"
proof -
  let ?out = "expandvars (environ w) args_output"
  let ?body = "\<lambda>manifest. seq (lift (parse_input manifest)) (\<lambda>partitions w.
               if exists w ?out \<and> length partitions = 2
               then shortcut_existing partitions ?out w
               else
                 (case partitions of
                    [p0, p1] \<Rightarrow>
                      (let gptprefix = sizeByMb p0 @ ''_'' @ sizeByMb p1;
                           prebuilt_gpt_dir = script_dir @ ''/prebuilt/gpt/'' @ gptprefix;
                           gpt_head = prebuilt_gpt_dir @ ''/head.img'';
                           gpt_tail = prebuilt_gpt_dir @ ''/head.img''
                       in if exists w gpt_head \<and> exists w gpt_tail
                          then shortcut_template p0 p1 gpt_head gpt_tail ?out w
                          else combine partitions ?out w)
                  | _ \<Rightarrow> combine partitions ?out w))"
  from assms obtain w0 where
    a: "shell_command [''rm'', ''-rf'', ?out @ ''.qcow2''] (rm_rf (?out @ ''.qcow2'')) w
          = (Inr (), w0)" and
    b: "(case files w0 args_input of
           None \<Rightarrow> (Inl (ManifestNotFound args_input), w0)
         | Some config \<Rightarrow>
             (case codec w0 config of
                None \<Rightarrow> (Inl UnicodeDecodeError, w0)
              | Some manifest \<Rightarrow> ?body manifest w0)) = (Inr General, w')"
    by (auto simp: main_def Let_def seq_Inr_iff)
  from a have w0: "w0 = after_rm ?out w"
    by (auto simp: shell_command_Inr_iff rm_rf_def after_rm_def)
  from b obtain config where c: "files w0 args_input = Some config"
    by (cases "files w0 args_input") auto
  with b obtain manifest where t: "codec w0 config = Some manifest"
    by (cases "codec w0 config") auto
  with b c have "?body manifest w0 = (Inr General, w')" by simp
  then obtain partitions where
    p: "parse_input manifest w0 = Inr partitions" and
    r: "(if exists w0 ?out \<and> length partitions = 2
               then shortcut_existing partitions ?out w0
               else
                 (case partitions of
                    [p0, p1] \<Rightarrow>
                      (let gptprefix = sizeByMb p0 @ ''_'' @ sizeByMb p1;
                           prebuilt_gpt_dir = script_dir @ ''/prebuilt/gpt/'' @ gptprefix;
                           gpt_head = prebuilt_gpt_dir @ ''/head.img'';
                           gpt_tail = prebuilt_gpt_dir @ ''/head.img''
                       in if exists w0 gpt_head \<and> exists w0 gpt_tail
                          then shortcut_template p0 p1 gpt_head gpt_tail ?out w0
                          else combine partitions ?out w0)
                  | _ \<Rightarrow> combine partitions ?out w0)) = (Inr General, w')"
    by (auto simp: seq_Inr_iff lift_Inr_iff)
  have "combine partitions ?out w0 = (Inr General, w')"
    using r
    by (auto simp: Let_def split: if_splits list.splits
        dest: shortcut_existing_route shortcut_template_route)
  moreover have "codec w config = Some manifest" using t w0 by (simp add: after_rm_def)
  ultimately show ?thesis using c p w0 by blast
qed

lemma stub_fields:
  "files (stub out w) out = Some (replicate MiB 0)" "environ (stub out w) = environ w"
  "open_fds (stub out w) = open_fds w" "unsparse_raw (stub out w) = unsparse_raw w"
  "\<And>q. q \<noteq> out \<Longrightarrow> files (stub out w) q = files w q"
  "trace (stub out w) = trace w @ [[''dd'', ''if=/dev/zero'', ''of='' @ out, ''ibs=1024k'', ''count=1'']]"
  by (simp_all add: stub_def)

lemma after_rm_fields:
  "environ (after_rm out w) = environ w" "open_fds (after_rm out w) = open_fds w"
  "unsparse_raw (after_rm out w) = unsparse_raw w"
  "\<And>q. files (after_rm out w) q \<noteq> None \<Longrightarrow> files w q \<noteq> None"
  by (simp_all add: after_rm_def split: if_splits)

lemma general_run:
  assumes "main args_input args_output script_dir w = (Inr General, w')"
  shows "\<exists>config manifest partitions placed w2 old2 w4.
           files (after_rm (expandvars (environ w) args_output) w) args_input = Some config
           \<and> codec w config = Some manifest
           \<and> parse_input manifest (after_rm (expandvars (environ w) args_output) w) = Inr partitions
           \<and> compose partitions (expandvars (environ w) args_output)
                (stub (expandvars (environ w) args_output)
                   (after_rm (expandvars (environ w) args_output) w)) = (Inr placed, w2)
           \<and> files w2 (expandvars (environ w) args_output) = Some old2
           \<and> trace w4 = trace w2 @
                [[''dd'', ''if=/dev/zero'', ''of='' @ expandvars (environ w) args_output,
                  ''conv=notrunc'', ''bs=1024k'', ''count=1'',
                  ''seek='' @ str (int (length old2) div 1024 div 1024)],
                 [environ_get w ''SGDISK'' ''sgdisk'', ''--clear'',
                  expandvars (environ w) args_output]]
           \<and> open_fds w4 = open_fds w2 \<and> environ w4 = environ w
           \<and> (\<forall>q. q \<noteq> expandvars (environ w) args_output \<longrightarrow> files w4 q = files w2 q)
           \<and> write_table placed (expandvars (environ w) args_output) w4 = (Inr (), w')"
proof -
  let ?out = "expandvars (environ w) args_output"
  let ?w0 = "after_rm ?out w"
  from main_general [OF assms] obtain config manifest partitions where
    m: "files ?w0 args_input = Some config" "codec w config = Some manifest"
       "parse_input manifest ?w0 = Inr partitions"
       "combine partitions ?out ?w0 = (Inr General, w')"
    by blast
  from combine_Inr [OF m(4)] obtain placed w2 and old2 :: bytes and w4 where
    c: "compose partitions ?out (stub ?out ?w0) = (Inr placed, w2)" "files w2 ?out = Some old2"
       "trace w4 = trace w2 @
                 [[''dd'', ''if=/dev/zero'', ''of='' @ ?out, ''conv=notrunc'', ''bs=1024k'',
                   ''count=1'', ''seek='' @ str (int (length old2) div 1024 div 1024)],
                  [environ_get w2 ''SGDISK'' ''sgdisk'', ''--clear'', ?out]]"
       "open_fds w4 = open_fds w2" "environ w4 = environ w2"
       "\<forall>q. q \<noteq> ?out \<longrightarrow> files w4 q = files w2 q"
       "write_table placed ?out w4 = (Inr (), w')"
    by blast
  have "files (stub ?out ?w0) ?out \<noteq> None" by (simp add: stub_fields)
  from compose_frame [OF c(1) this] have e2: "environ w2 = environ w"
    by (simp add: stub_fields after_rm_fields)
  then have g: "environ_get w2 ''SGDISK'' ''sgdisk'' = environ_get w ''SGDISK'' ''sgdisk''"
    by (simp add: environ_get_def)
  from c(3) g have t4: "trace w4 = trace w2 @
                [[''dd'', ''if=/dev/zero'', ''of='' @ ?out,
                  ''conv=notrunc'', ''bs=1024k'', ''count=1'',
                  ''seek='' @ str (int (length old2) div 1024 div 1024)],
                 [environ_get w ''SGDISK'' ''sgdisk'', ''--clear'', ?out]]"
    by simp
  from c(5) e2 have e4: "environ w4 = environ w" by simp
  from m(1,2,3) c(1,2) t4 c(4) e4 c(6,7) show ?thesis by blast
qed

lemma decode_encode: "decode (encode s) = s"
proof -
  have "char_of (unat (of_nat (of_char c) :: 8 word)) = c" for c :: char
  proof -
    have "(of_char c :: nat) < 256" by (rule nat_of_char_less_256)
    then have "unat (of_nat (of_char c) :: 8 word) = of_char c"
      by (simp add: unat_of_nat)
    then show ?thesis by simp
  qed
  then show ?thesis by (simp add: decode_def encode_def map_idI)
qed

lemma mkstemp_try_pos:
  "0 < n \<Longrightarrow> mkstemp_try n k w =
     (if files w (tmp_names w k) = None then Some (tmp_names w k)
      else mkstemp_try (n - 1) (Suc k) w)"
  by (cases n) simp_all

lemmas run_defs =
  main_def shell_command_def rm_rf_def parse_input_def decode_encode readlines_def split_def
  strip_def is_space_def py_int_def skip_sign_def skip_prefix_def parse_num_def digit_val_def
  getsize_def ceil_mb_def round53_def count_digits_def max_str_digits_def str_def str_nat.simps str_digit_def exists_def combine_def
  dd_zero_create_def seq_def lift_def ret_def place_def check_sparse_def hexlify_def hex_digit_def
  unsparse_partition_def mkstemp_def TMP_MAX_def mkstemp_try_pos fresh_fd_def simg2img_run_def
  write_partition_def dd_copy_def write_at_def sync_pad_def MiB_def dd_zero_at_def
  clear_partition_table_def sgdisk_run_def add_partition_def add_partition_comm_def cleanup_def
  os_close_def os_remove_def environ_get_def img_world_def run_world_def Let_def

lemma run_route: "fst (main ''cfg'' ''out.img'' ''/s'' run_world) = Inr General"
  by (simp add: run_defs)

lemma run_trace:
  "trace (snd (main ''cfg'' ''out.img'' ''/s'' run_world)) =
     [[''rm'', ''-rf'', ''out.img.qcow2''],
      [''dd'', ''if=/dev/zero'', ''of=out.img'', ''ibs=1024k'', ''count=1''],
      [''dd'', ''if=a.img'', ''of=out.img'', ''conv=notrunc,sync'', ''ibs=1024k'', ''obs=1024k'',
       ''seek=1''],
      [''simg2img'', ''s.img'', ''/tmp/tmp0''],
      [''dd'', ''if=/tmp/tmp0'', ''of=out.img'', ''conv=notrunc,sync'', ''ibs=1024k'',
       ''obs=1024k'', ''seek=2''],
      [''dd'', ''if=/dev/zero'', ''of=out.img'', ''conv=notrunc'', ''bs=1024k'', ''count=1'',
       ''seek=3''],
      [''sgdisk'', ''--clear'', ''out.img''],
      [''sgdisk'', ''--new=1:2048:4095'', ''--type=1:8300'', ''--change-name=1:system'',
       ''out.img''],
      [''sgdisk'', ''--new=2:4096:6143'', ''--type=2:8300'', ''--change-name=2:data'',
       ''out.img'']]"
  by (simp add: run_defs)

lemma run_general:
  "main ''cfg'' ''out.img'' ''/s'' run_world
     = (Inr General, snd (main ''cfg'' ''out.img'' ''/s'' run_world))"
  using run_route by (metis prod.collapse)

lemma str_digit_table:
  "\<forall>d \<in> set [0..<10]. digit_val 10 (str_digit d) = Some d \<and> str_digit d \<noteq> CHR ''_''
      \<and> str_digit d \<noteq> CHR ''-'' \<and> str_digit d \<noteq> CHR ''+'' \<and> \<not> is_space (str_digit d)"
  by code_simp

lemma str_digit_facts:
  assumes "d < 10"
  shows "digit_val 10 (str_digit d) = Some d" "str_digit d \<noteq> CHR ''_''"
    "str_digit d \<noteq> CHR ''-''" "str_digit d \<noteq> CHR ''+''" "\<not> is_space (str_digit d)"
  using str_digit_table assms by simp_all

lemma parse_digits_snoc:
  assumes "\<forall>c \<in> set xs. is_dec c" and "d < 10"
  shows "parse_digits 10 acc (xs @ [str_digit d])
         = map_option (\<lambda>a. a * 10 + int d) (parse_digits 10 acc xs)"
  using assms(1)
proof (induction xs arbitrary: acc)
  case Nil
  show ?case using str_digit_facts [OF assms(2)] by simp
next
  case (Cons c cs)
  from Cons.prems obtain e where e: "e < 10" "c = str_digit e" by (auto simp: is_dec_def)
  have "parse_digits 10 acc ((c # cs) @ [str_digit d])
        = parse_digits 10 (acc * 10 + int e) (cs @ [str_digit d])"
    using str_digit_facts [OF e(1)] e(2) by simp
  also have "\<dots> = map_option (\<lambda>a. a * 10 + int d) (parse_digits 10 (acc * 10 + int e) cs)"
    using Cons.IH Cons.prems by simp
  also have "parse_digits 10 (acc * 10 + int e) cs = parse_digits 10 acc (c # cs)"
    using str_digit_facts [OF e(1)] e(2) by simp
  finally show ?case .
qed

lemma str_nat_parse:
  "(\<forall>c \<in> set (str_nat n). is_dec c) \<and> str_nat n \<noteq> []
   \<and> parse_digits 10 0 (str_nat n) = Some (int n)"
proof (induction n rule: str_nat.induct)
  case (1 n)
  show ?case
  proof (cases "n < 10")
    case True
    then have s: "str_nat n = [str_digit n]" by (simp add: str_nat.simps)
    show ?thesis unfolding s using str_digit_facts [OF True] True
      by (auto simp: is_dec_def)
  next
    case False
    then have s: "str_nat n = str_nat (n div 10) @ [str_digit (n mod 10)]"
      by (subst str_nat.simps) simp
    have m: "n mod 10 < 10" by simp
    from "1.IH" [OF False] have
      ih: "\<forall>c \<in> set (str_nat (n div 10)). is_dec c"
          "parse_digits 10 0 (str_nat (n div 10)) = Some (int (n div 10))"
      by simp_all
    have "parse_digits 10 0 (str_nat n) = Some (int (n div 10) * 10 + int (n mod 10))"
      unfolding s using parse_digits_snoc [OF ih(1) m, of 0] ih(2) by simp
    also have "int (n div 10) * 10 + int (n mod 10) = int n"
      by (simp add: zdiv_int zmod_int)
    finally have p: "parse_digits 10 0 (str_nat n) = Some (int n)" .
    have "is_dec (str_digit (n mod 10))"
      unfolding is_dec_def using m by blast
    then have "\<forall>c \<in> set (str_nat n). is_dec c"
      unfolding s using ih(1) by simp
    with p s show ?thesis by simp
  qed
qed

lemma is_dec_facts:
  "is_dec c \<Longrightarrow> \<not> is_space c \<and> c \<noteq> CHR ''-'' \<and> c \<noteq> CHR ''+'' \<and> c \<noteq> CHR ''_''
     \<and> (\<exists>d < 10. digit_val 10 c = Some d)"
  using str_digit_facts by (auto simp: is_dec_def)

lemma parse_num_dec:
  assumes "\<forall>c \<in> set s. is_dec c" and "s \<noteq> []"
  shows "parse_num 10 s = parse_digits 10 0 s"
proof -
  from assms obtain c cs where s: "s = c # cs" by (cases s) auto
  with assms(1) have "is_dec c" by simp
  from is_dec_facts [OF this] obtain d where "digit_val 10 c = Some d" "c \<noteq> CHR ''_''"
    by blast
  then show ?thesis by (simp add: parse_num_def s)
qed

lemma skip_prefix_10: "skip_prefix 10 s = s"
  by (simp add: skip_prefix_def split: list.splits)

lemma count_digits_dec: "\<forall>c \<in> set s. is_dec c \<Longrightarrow> count_digits s = length s"
proof -
  assume a: "\<forall>c \<in> set s. is_dec c"
  have "filter (\<lambda>c. c \<noteq> CHR ''_'') s = s"
    using a is_dec_facts by (intro filter_True) blast
  then show ?thesis by (simp add: count_digits_def)
qed

lemma py_int_str_nat:
  assumes "length (str_nat n) \<le> 4300"
  shows "py_int 10 (str_nat n) = Inr (int n)"
proof -
  from str_nat_parse [of n] have
    d: "\<forall>c \<in> set (str_nat n). is_dec c" "str_nat n \<noteq> []"
       "parse_digits 10 0 (str_nat n) = Some (int n)"
    by simp_all
  have st: "strip (str_nat n) = str_nat n"
    using d(1) is_dec_facts by (intro strip_no_space) blast
  from d obtain c cs where s: "str_nat n = c # cs" "is_dec c" by (cases "str_nat n") auto
  have sg: "skip_sign (str_nat n) = (False, str_nat n)"
    using is_dec_facts [OF s(2)] by (simp add: skip_sign_def s(1))
  have lim: "\<not> max_str_digits < count_digits (str_nat n)"
    using assms by (simp add: count_digits_dec [OF d(1)] max_str_digits_def)
  show ?thesis
    unfolding py_int_def st sg
    by (simp add: skip_prefix_10 parse_num_dec [OF d(1,2)] d(3) lim)
qed

lemma py_int_minus_digits:
  assumes "\<forall>c \<in> set s. is_dec c" and "s \<noteq> []" and "parse_digits 10 0 s = Some v"
    and "length s \<le> 4300"
  shows "py_int 10 (CHR ''-'' # s) = Inr (- v)"
proof -
  have "\<not> is_space (CHR ''-'')" by (simp add: is_space_def)
  then have "\<forall>c \<in> set (CHR ''-'' # s). \<not> is_space c"
    using assms(1) is_dec_facts by auto
  then have st: "strip (CHR ''-'' # s) = CHR ''-'' # s" by (rule strip_no_space)
  have sg: "skip_sign (CHR ''-'' # s) = (True, s)" by (simp add: skip_sign_def)
  have pn: "parse_num 10 s = Some v"
    using parse_num_dec [OF assms(1,2)] assms(3) by simp
  have lim: "\<not> max_str_digits < count_digits s"
    using assms(4) by (simp add: count_digits_dec [OF assms(1)] max_str_digits_def)
  show ?thesis
    unfolding py_int_def st sg by (simp add: skip_prefix_10 pn lim)
qed

lemma py_int_str:
  assumes "length (str_nat (nat \<bar>i\<bar>)) \<le> 4300"
  shows "py_int 10 (str i) = Inr i"
proof (cases "i < 0")
  case False
  then have "nat \<bar>i\<bar> = nat i" by simp
  with assms False show ?thesis by (simp add: str_def py_int_str_nat)
next
  case True
  define m where "m = nat (- i)"
  have s: "str i = CHR ''-'' # str_nat m" using True by (simp add: str_def m_def)
  have l: "length (str_nat m) \<le> 4300" using assms True by (simp add: m_def)
  from str_nat_parse [of m] have
    d: "\<forall>c \<in> set (str_nat m). is_dec c" "str_nat m \<noteq> []"
       "parse_digits 10 0 (str_nat m) = Some (int m)"
    by simp_all
  have "py_int 10 (str i) = Inr (- int m)"
    unfolding s by (rule py_int_minus_digits [OF d l])
  moreover have "- int m = i" using True by (simp add: m_def)
  ultimately show ?thesis by simp
qed

lemma str_nat_inj:
  assumes "str_nat a = str_nat b"
  shows "a = b"
proof -
  have "Some (int a) = parse_digits 10 0 (str_nat a)" using str_nat_parse [of a] by simp
  also have "\<dots> = parse_digits 10 0 (str_nat b)" by (simp only: assms)
  also have "\<dots> = Some (int b)" using str_nat_parse [of b] by simp
  finally show ?thesis by simp
qed

lemma str_nat_no_minus: "str_nat n \<noteq> CHR ''-'' # s"
proof
  assume a: "str_nat n = CHR ''-'' # s"
  from str_nat_parse [of n] have "\<forall>c \<in> set (str_nat n). is_dec c" by simp
  with a have "is_dec (CHR ''-'')" by simp
  with is_dec_facts show False by blast
qed

lemma str_inj:
  assumes "str a = str b"
  shows "a = b"
proof (cases "a < 0")
  case True
  note a = this
  show ?thesis
  proof (cases "b < 0")
    case True
    with a assms have "str_nat (nat (- a)) = str_nat (nat (- b))" by (simp add: str_def)
    from str_nat_inj [OF this] a True show ?thesis by simp
  next
    case False
    with a assms have "str_nat (nat b) = CHR ''-'' # str_nat (nat (- a))"
      by (simp add: str_def)
    with str_nat_no_minus show ?thesis by blast
  qed
next
  case False
  note a = this
  show ?thesis
  proof (cases "b < 0")
    case True
    with a assms have "str_nat (nat a) = CHR ''-'' # str_nat (nat (- b))"
      by (simp add: str_def)
    with str_nat_no_minus show ?thesis by blast
  next
    case False
    with a assms have "str_nat (nat a) = str_nat (nat b)" by (simp add: str_def)
    from str_nat_inj [OF this] a False show ?thesis by simp
  qed
qed

lemma sectors_unique: "sectors p se \<Longrightarrow> sectors p se' \<Longrightarrow> se = se'"
  by (auto simp: sectors_def prod_eq_iff dest: str_inj)

text \<open>
  Claim C6. For a source file of at least four bytes, \<open>check_sparse\<close> answers \<open>True\<close>
  exactly when its first four bytes, reversed and read as a big-endian (hexadecimal) integer,
  are \<open>0xED26FF3A\<close>, which is decimal 3978755898; every other such file is non-sparse.
\<close>

theorem check_sparse_magic:
  assumes "files w filename = Some content" and "4 \<le> length content"
  shows "check_sparse filename w = Inr (be_int (rev (take 4 content)) = 0xED26FF3A)
         \<and> (0xED26FF3A :: int) = 3978755898"
proof -
  have "rev (take 4 content) \<noteq> []" using assms(2) by auto
  then have "py_int 16 (hexlify (rev (take 4 content))) = Inr (be_int (rev (take 4 content)))"
    by (rule py_int_hexlify)
  then show ?thesis using assms(1) by (auto simp: check_sparse_def)
qed

theorem check_sparse_magic_witness:
  "files (img_world [(''s.img'', [0x3A, 0xFF, 0x26, 0xED, 0])]) ''s.img''
     = Some [0x3A, 0xFF, 0x26, 0xED, 0]
   \<and> 4 \<le> length [0x3A, 0xFF, 0x26, 0xED, 0 :: 8 word]
   \<and> check_sparse ''s.img'' (img_world [(''s.img'', [0x3A, 0xFF, 0x26, 0xED, 0])]) = Inr True"
  using check_sparse_magic [of "img_world [(''s.img'', [0x3A, 0xFF, 0x26, 0xED, 0])]" "''s.img''"
      "[0x3A, 0xFF, 0x26, 0xED, 0]"]
  by (simp add: img_world_def be_int_def)

text \<open>
  Claim C7, as amended. Validation is sequential and stops at the first failure, so
  \<open>parse_input\<close> aborts with \<open>PartitionNumberOutOfRange n k\<close> exactly when \<open>k\<close> is the raw
  line count of the manifest (blank, comment and malformed lines included) and some directive
  whose source file exists has the parsed number \<open>n\<close> with \<open>n < 0\<close> or \<open>n > k\<close>, while every
  directive before it passed validation (source exists, number parses, lies in \<open>[0, k]\<close>,
  not used before).
\<close>

theorem out_of_range_abort:
  "parse_input input_file w = Inl (PartitionNumberOutOfRange n k) \<longleftrightarrow>
     k = int (length (readlines input_file)) \<and>
     (\<exists>pre l0 l1 l2 post.
        parsed_lines (environ w) (readlines input_file) = pre @ [l0, l1, l2] # post
        \<and> validated w k pre
        \<and> files w l0 \<noteq> None \<and> py_int 10 l2 = Inr n \<and> (n < 0 \<or> k < n))"
  (is "?L \<longleftrightarrow> ?R")
proof
  let ?nl = "length (readlines input_file)"
  let ?ds = "parsed_lines (environ w) (readlines input_file)"
  assume ?L
  then have "build_partitions w ?nl {} [] ?ds = Inl (PartitionNumberOutOfRange n k)"
    by (auto simp: parse_input_def Let_def split: sum.splits)
  from build_out_of_range_decomp [OF this] show ?R
    by (auto simp: accepted_iff)
next
  let ?nl = "length (readlines input_file)"
  let ?ds = "parsed_lines (environ w) (readlines input_file)"
  assume r: ?R
  then obtain pre l0 l1 l2 post where
    d: "k = int ?nl" "?ds = pre @ [l0, l1, l2] # post" "validated w k pre"
       "files w l0 \<noteq> None" "py_int 10 l2 = Inr n" "n < 0 \<or> k < n"
    by blast
  have "accepted w (int ?nl) {} pre" using d(1,3) by (simp add: accepted_iff)
  from build_skip_accepted [OF this, of "[]" "[l0, l1, l2] # post"]
  obtain used' acc' where
    "build_partitions w ?nl {} [] ?ds = build_partitions w ?nl used' acc' ([l0, l1, l2] # post)"
    using d(2) by auto
  also have "\<dots> = Inl (PartitionNumberOutOfRange n (int ?nl))"
    using d by (intro build_out_of_range) auto
  finally show ?L using d(1) by (simp add: parse_input_def Let_def)
qed

theorem out_of_range_abort_witness:
  "validated (img_world [(''a.img'', [1]), (''b.img'', [1])]) 2 [[''a.img'', ''system'', ''1'']]
   \<and> parse_input ''a.img system 1\<newline>b.img vendor 7\<newline>''
         (img_world [(''a.img'', [1]), (''b.img'', [1])])
       = Inl (PartitionNumberOutOfRange 7 2)"
proof -
  let ?w = "img_world [(''a.img'', [1]), (''b.img'', [1])]"
  let ?m = "''a.img system 1\<newline>b.img vendor 7\<newline>''"
  have k: "(2::int) = int (length (readlines ?m))" by code_simp
  have d: "parsed_lines (environ ?w) (readlines ?m)
           = [[''a.img'', ''system'', ''1'']] @ [''b.img'', ''vendor'', ''7''] # []"
    by code_simp
  have v: "validated ?w 2 [[''a.img'', ''system'', ''1'']]" by code_simp
  have f: "files ?w ''b.img'' \<noteq> None" by code_simp
  have p: "py_int 10 ''7'' = Inr 7" by code_simp
  have r: "\<exists>pre l0 l1 l2 post.
        parsed_lines (environ ?w) (readlines ?m) = pre @ [l0, l1, l2] # post
        \<and> validated ?w 2 pre
        \<and> files ?w l0 \<noteq> None \<and> py_int 10 l2 = Inr 7 \<and> ((7::int) < 0 \<or> (2::int) < 7)"
    by (rule exI [where x = "[[''a.img'', ''system'', ''1'']]"], rule exI [where x = "''b.img''"],
        rule exI [where x = "''vendor''"], rule exI [where x = "''7''"], rule exI [where x = "[]"])
       (simp only: d v f p, simp)
  have "parse_input ?m ?w = Inl (PartitionNumberOutOfRange 7 2)"
    by (rule iffD2 [OF out_of_range_abort [of ?m ?w 7 2]], rule conjI, rule k, rule r)
  then show ?thesis using v by simp
qed

theorem out_of_range_masked_by_duplicate:
  "parsed_lines (environ (img_world [(''a'', [1]), (''b'', [1]), (''c'', [1])]))
       (readlines ''a x 1\<newline>b y 1\<newline>c z 9\<newline>'') ! 2 = [''c'', ''z'', ''9'']
   \<and> py_int 10 ''9'' = Inr 9
   \<and> 9 > int (length (readlines ''a x 1\<newline>b y 1\<newline>c z 9\<newline>''))
   \<and> parse_input ''a x 1\<newline>b y 1\<newline>c z 9\<newline>''
         (img_world [(''a'', [1]), (''b'', [1]), (''c'', [1])])
       = Inl (DuplicatePartitionNumber 1)"
  by code_simp

text \<open>
  Claim C8. The claim asks that every accepted partition number lie in \<open>[1, line count]\<close>, so
  that number 0 is never accepted. The range check of \<open>parse_input\<close> rejects only \<open>n < 0\<close> and
  \<open>n > line count\<close>: a directive declaring number 0 is accepted, although the message of the
  same check announces the range \<open>[1..line count]\<close>.
\<close>

theorem parse_input_accepts_zero:
  "parse_input ''a.img system 0\<newline>'' (img_world [(''a.img'', [1])])
     = Inr [\<lparr>path = ''a.img'', label = ''system'', sizeByMb = ''1'', num = 0,
             start = None, endp = None, fd = None\<rparr>]"
  by code_simp

text \<open>
  Claim C4. The claim asks that every token be expanded against the environment before use.
  \<open>parse_input\<close> computes the expansion of each token and discards it: with \<open>OUT=/out\<close> set and
  \<open>/out/system.img\<close> present, the directive \<open>$OUT/system.img system 1\<close> is looked up under its
  literal, unexpanded path and the size lookup fails.
\<close>

theorem expansion_discarded:
  "expandvars [''OUT'' \<mapsto> ''/out''] ''$OUT/system.img'' = ''/out/system.img''
   \<and> parse_input ''$OUT/system.img system 1\<newline>''
         ((img_world [(''/out/system.img'', [1])])\<lparr>environ := [''OUT'' \<mapsto> ''/out'']\<rparr>)
       = Inl (FileNotFoundError ''$OUT/system.img'')"
  by code_simp

text \<open>
  Claim C2. Every partition processed by the composer (one call of \<open>place\<close>, the body of
  the loop, applied by \<open>compose\<close> to each partition in turn) gets
  \<open>start = str (before div 512)\<close> and \<open>end = str (after div 512 - 1)\<close>, where \<open>before\<close> is the size
  in bytes of the output file in the state \<open>w2\<close> from which the copy is issued and \<open>after\<close> is
  its size in the state \<open>w'\<close> that the copy returns. The state \<open>w2\<close> is the one the run itself
  reaches: it is what the sparse check followed by the optional unsparse step makes of the
  state \<open>w\<close> at the top of the iteration, and the copy takes \<open>w2\<close> to \<open>w'\<close>. The code reads the
  size at the top of the iteration; the two sizes agree because the unsparse step only creates a
  fresh temporary file.
\<close>

theorem place_sector_bounds:
  assumes "place p output_filename w = (Inr p', w')"
  shows "\<exists>before after sparse p2 w2.
           getsize output_filename w = Inr before
           \<and> check_sparse (path p) w = Inr sparse
           \<and> (if sparse then unsparse_partition (p\<lparr>start := Some (str (before div 512))\<rparr>)
               else ret (p\<lparr>start := Some (str (before div 512))\<rparr>)) w = (Inr p2, w2)
           \<and> getsize output_filename w2 = Inr before
           \<and> write_partition p2 output_filename (before div 1024 div 1024) w2 = (Inr (), w')
           \<and> getsize output_filename w' = Inr after
           \<and> p' = p2\<lparr>endp := Some (str (after div 512 - 1))\<rparr>
           \<and> start p' = Some (str (before div 512))
           \<and> endp p' = Some (str (after div 512 - 1))"
proof -
  let ?o = output_filename
  from assms obtain before sp p2 w2 after where
    b: "getsize ?o w = Inr before" and
    c: "check_sparse (path p) w = Inr sp" and
    u: "(if sp then unsparse_partition (p\<lparr>start := Some (str (before div 512))\<rparr>)
         else ret (p\<lparr>start := Some (str (before div 512))\<rparr>)) w = (Inr p2, w2)" and
    d: "write_partition p2 ?o (before div 1024 div 1024) w2 = (Inr (), w')" and
    a: "getsize ?o w' = Inr after" and
    p': "p' = p2\<lparr>endp := Some (str (after div 512 - 1))\<rparr>"
    by (auto simp: place_def seq_Inr_iff lift_Inr_iff ret_iff Let_def)
  from c obtain content where src: "files w (path p) = Some content"
    by (auto simp: check_sparse_def Let_def split: option.splits)
  have "files w2 ?o = files w ?o \<and> start p2 = Some (str (before div 512))"
  proof (cases sp)
    case False
    with u show ?thesis by (auto simp: ret_iff)
  next
    case True
    with u have "unsparse_partition (p\<lparr>start := Some (str (before div 512))\<rparr>) w = (Inr p2, w2)"
      by simp
    from unsparse_partition_Inr [OF this, of content] src obtain n tmp raw where
      t: "files w tmp = None"
         "p2 = p\<lparr>start := Some (str (before div 512)), fd := Some n, path := tmp\<rparr>"
         "files w2 = (files w)(tmp \<mapsto> raw)"
      by auto
    from b t(1) have "tmp \<noteq> ?o" by (auto simp: getsize_def split: option.splits)
    with t show ?thesis by simp
  qed
  then have g: "getsize ?o w2 = Inr before" and s: "start p' = Some (str (before div 512))"
    using b p' by (simp_all add: getsize_def)
  have e: "endp p' = Some (str (after div 512 - 1))" using p' by simp
  from b c u g d a p' s e show ?thesis by blast
qed

lemma demo_place:
  "fst (place demo_part ''out.img'' demo_stub)
     = Inr (demo_part\<lparr>start := Some ''2048'', endp := Some ''4095''\<rparr>)"
  by (simp add: run_defs demo_part_def demo_stub_def)

theorem place_sector_bounds_witness:
  "place demo_part ''out.img'' demo_stub
     = (Inr (demo_part\<lparr>start := Some ''2048'', endp := Some ''4095''\<rparr>),
        snd (place demo_part ''out.img'' demo_stub))
   \<and> (\<exists>before after sparse p2 w2.
           getsize ''out.img'' demo_stub = Inr before
           \<and> check_sparse (path demo_part) demo_stub = Inr sparse
           \<and> (if sparse
               then unsparse_partition (demo_part\<lparr>start := Some (str (before div 512))\<rparr>)
               else ret (demo_part\<lparr>start := Some (str (before div 512))\<rparr>)) demo_stub
                = (Inr p2, w2)
           \<and> getsize ''out.img'' w2 = Inr before
           \<and> write_partition p2 ''out.img'' (before div 1024 div 1024) w2
                = (Inr (), snd (place demo_part ''out.img'' demo_stub))
           \<and> getsize ''out.img'' (snd (place demo_part ''out.img'' demo_stub)) = Inr after
           \<and> demo_part\<lparr>start := Some ''2048'', endp := Some ''4095''\<rparr>
                = p2\<lparr>endp := Some (str (after div 512 - 1))\<rparr>
           \<and> start (demo_part\<lparr>start := Some ''2048'', endp := Some ''4095''\<rparr>)
                = Some (str (before div 512))
           \<and> endp (demo_part\<lparr>start := Some ''2048'', endp := Some ''4095''\<rparr>)
                = Some (str (after div 512 - 1)))"
proof -
  have e: "place demo_part ''out.img'' demo_stub
        = (Inr (demo_part\<lparr>start := Some ''2048'', endp := Some ''4095''\<rparr>),
           snd (place demo_part ''out.img'' demo_stub))"
    using demo_place by (metis prod.collapse)
  show ?thesis
    by (rule conjI, rule e, rule place_sector_bounds [OF e])
qed

text \<open>
  Claim C1, as amended. A failed collaborator call aborts the run at once, so the claim holds
  for the runs that take the general path to completion: for every manifest that parses and
  every run of \<open>main\<close> that ends with \<open>General\<close>, the commands after the composer's are the
  final padding, the \<open>--clear\<close> call and then exactly one \<open>sgdisk\<close> call per partition, in the
  order of the list returned by the parser, which is strictly ascending in the partition
  number. The call for a partition carries its number, its label verbatim, the \<open>start\<close> and
  \<open>end\<close> that the composer recorded for it, and the type code 8300 (\<open>table_entry\<close>). The pairs
  of number and label written are exactly those declared by the directives of the manifest.
\<close>

theorem table_entries_general:
  assumes "main args_input args_output script_dir w = (Inr General, w')"
  shows "\<exists>config manifest partitions placed w2 old2 cmds.
           files (after_rm (expandvars (environ w) args_output) w) args_input = Some config
           \<and> codec w config = Some manifest
           \<and> parse_input manifest (after_rm (expandvars (environ w) args_output) w)
                = Inr partitions
           \<and> sorted_wrt (<) (map num partitions)
           \<and> entry_key ` set partitions
                = declared ` set (parsed_lines (environ w) (readlines manifest))
           \<and> compose partitions (expandvars (environ w) args_output)
                (stub (expandvars (environ w) args_output)
                   (after_rm (expandvars (environ w) args_output) w)) = (Inr placed, w2)
           \<and> map num placed = map num partitions \<and> map label placed = map label partitions
           \<and> files w2 (expandvars (environ w) args_output) = Some old2
           \<and> trace w' = trace w2 @
                [[''dd'', ''if=/dev/zero'', ''of='' @ expandvars (environ w) args_output,
                  ''conv=notrunc'', ''bs=1024k'', ''count=1'',
                  ''seek='' @ str (int (length old2) div 1024 div 1024)],
                 [environ_get w ''SGDISK'' ''sgdisk'', ''--clear'',
                  expandvars (environ w) args_output]] @ cmds
           \<and> list_all2 (table_entry (environ_get w ''SGDISK'' ''sgdisk'')
                           (expandvars (environ w) args_output)) placed cmds"
proof -
  let ?out = "expandvars (environ w) args_output"
  let ?w0 = "after_rm ?out w"
  let ?g = "environ_get w ''SGDISK'' ''sgdisk''"
  from general_run [OF assms] obtain config manifest partitions placed w2
    and old2 :: bytes and w4 where
    r: "files ?w0 args_input = Some config" "codec w config = Some manifest"
       "parse_input manifest ?w0 = Inr partitions"
       "compose partitions ?out (stub ?out ?w0) = (Inr placed, w2)"
       "files w2 ?out = Some old2"
       "trace w4 = trace w2 @
                [[''dd'', ''if=/dev/zero'', ''of='' @ ?out,
                  ''conv=notrunc'', ''bs=1024k'', ''count=1'',
                  ''seek='' @ str (int (length old2) div 1024 div 1024)],
                 [?g, ''--clear'', ?out]]"
       "environ w4 = environ w"
       "write_table placed ?out w4 = (Inr (), w')"
    by blast
  from parse_input_Inr [OF r(3)] have
    p: "sorted_wrt (<) (map num partitions)"
       "entry_key ` set partitions
          = declared ` set (parsed_lines (environ w) (readlines manifest))"
    by (simp_all add: after_rm_fields)
  have "files (stub ?out ?w0) ?out \<noteq> None" by (simp add: stub_fields)
  from compose_frame [OF r(4) this] have
    f: "map num placed = map num partitions" "map label placed = map label partitions"
    by simp_all
  have g4: "environ_get w4 ''SGDISK'' ''sgdisk'' = ?g"
    using r(7) by (simp add: environ_get_def)
  from write_table_Inr [OF r(8)] obtain cmds where
    t: "trace w' = trace w4 @ cmds" "list_all2 (table_entry ?g ?out) placed cmds"
    unfolding g4 by blast
  have "trace w' = trace w2 @
                [[''dd'', ''if=/dev/zero'', ''of='' @ ?out,
                  ''conv=notrunc'', ''bs=1024k'', ''count=1'',
                  ''seek='' @ str (int (length old2) div 1024 div 1024)],
                 [?g, ''--clear'', ?out]] @ cmds"
    using t(1) r(6) by simp
  with r(1,2,3,4,5) p f t(2) show ?thesis by blast
qed

theorem table_entries_general_witness:
  "main ''cfg'' ''out.img'' ''/s'' run_world
     = (Inr General, snd (main ''cfg'' ''out.img'' ''/s'' run_world))
   \<and> (\<exists>placed w2 old2 cmds.
         compose [\<lparr>path = ''a.img'', label = ''system'', sizeByMb = ''1'', num = 1,
                    start = None, endp = None, fd = None\<rparr>,
                  \<lparr>path = ''s.img'', label = ''data'', sizeByMb = ''1'', num = 2,
                    start = None, endp = None, fd = None\<rparr>] ''out.img''
                 (stub ''out.img'' (after_rm ''out.img'' run_world)) = (Inr placed, w2)
         \<and> map num placed = [1, 2] \<and> map label placed = [''system'', ''data'']
         \<and> files w2 ''out.img'' = Some old2
         \<and> trace (snd (main ''cfg'' ''out.img'' ''/s'' run_world))
              = trace w2 @
                [[''dd'', ''if=/dev/zero'', ''of=out.img'', ''conv=notrunc'', ''bs=1024k'',
                  ''count=1'', ''seek='' @ str (int (length old2) div 1024 div 1024)],
                 [''sgdisk'', ''--clear'', ''out.img'']] @ cmds
         \<and> list_all2 (table_entry ''sgdisk'' ''out.img'') placed cmds)"
proof -
  let ?ps = "[\<lparr>path = ''a.img'', label = ''system'', sizeByMb = ''1'', num = 1,
                start = None, endp = None, fd = None\<rparr>,
              \<lparr>path = ''s.img'', label = ''data'', sizeByMb = ''1'', num = 2,
                start = None, endp = None, fd = None\<rparr>]"
  have ev: "expandvars (environ run_world) ''out.img'' = ''out.img''"
    by (simp add: run_world_def img_world_def)
  have sg: "environ_get run_world ''SGDISK'' ''sgdisk'' = ''sgdisk''"
    by (simp add: run_world_def img_world_def environ_get_def)
  have cfg: "files (after_rm ''out.img'' run_world) ''cfg''
             = Some (encode ''a.img system 1\<newline>s.img data 2\<newline>'')"
    by (simp add: after_rm_def run_world_def img_world_def)
  have cd: "codec run_world (encode ''a.img system 1\<newline>s.img data 2\<newline>'')
            = Some ''a.img system 1\<newline>s.img data 2\<newline>''"
    by (simp add: run_world_def img_world_def decode_encode)
  have pr: "parse_input ''a.img system 1\<newline>s.img data 2\<newline>'' (after_rm ''out.img'' run_world)
            = Inr ?ps"
    by code_simp
  from table_entries_general [OF run_general, unfolded ev sg]
  obtain config manifest partitions placed w2 and old2 :: bytes and cmds where
    t: "files (after_rm ''out.img'' run_world) ''cfg'' = Some config"
       "codec run_world config = Some manifest"
       "parse_input manifest (after_rm ''out.img'' run_world) = Inr partitions"
       "compose partitions ''out.img'' (stub ''out.img'' (after_rm ''out.img'' run_world))
          = (Inr placed, w2)"
       "map num placed = map num partitions" "map label placed = map label partitions"
       "files w2 ''out.img'' = Some old2"
       "trace (snd (main ''cfg'' ''out.img'' ''/s'' run_world))
          = trace w2 @
            [[''dd'', ''if=/dev/zero'', ''of=out.img'', ''conv=notrunc'', ''bs=1024k'',
              ''count=1'', ''seek='' @ str (int (length old2) div 1024 div 1024)],
             [''sgdisk'', ''--clear'', ''out.img'']] @ cmds"
       "list_all2 (table_entry ''sgdisk'' ''out.img'') placed cmds"
    by (elim exE conjE) (rule that, simp_all)
  from t(1) cfg have "config = encode ''a.img system 1\<newline>s.img data 2\<newline>''" by simp
  with t(2) cd have "manifest = ''a.img system 1\<newline>s.img data 2\<newline>''" by simp
  with t(3) pr have ps: "partitions = ?ps" by simp
  have n: "map num placed = [1, 2]" "map label placed = [''system'', ''data'']"
    using t(5,6) unfolding ps by simp_all
  have ex: "\<exists>placed w2 old2 cmds.
         compose ?ps ''out.img'' (stub ''out.img'' (after_rm ''out.img'' run_world))
           = (Inr placed, w2)
         \<and> map num placed = [1, 2] \<and> map label placed = [''system'', ''data'']
         \<and> files w2 ''out.img'' = Some old2
         \<and> trace (snd (main ''cfg'' ''out.img'' ''/s'' run_world))
              = trace w2 @
                [[''dd'', ''if=/dev/zero'', ''of=out.img'', ''conv=notrunc'', ''bs=1024k'',
                  ''count=1'', ''seek='' @ str (int (length old2) div 1024 div 1024)],
                 [''sgdisk'', ''--clear'', ''out.img'']] @ cmds
         \<and> list_all2 (table_entry ''sgdisk'' ''out.img'') placed cmds"
    apply (rule exI [where x = placed])
    apply (rule exI [where x = w2])
    apply (rule exI [where x = old2])
    apply (rule exI [where x = cmds])
    using t(4) n t(7,8,9) unfolding ps
    apply (intro conjI)
          apply assumption+
    done
  show ?thesis by (rule conjI [OF run_general ex])
qed

theorem table_write_abort_stops_entries:
  "parse_input ''a.img system 1\<newline>s.img data 2\<newline>'' (after_rm ''out.img'' add_fails_world)
     = Inr [\<lparr>path = ''a.img'', label = ''system'', sizeByMb = ''1'', num = 1,
              start = None, endp = None, fd = None\<rparr>,
            \<lparr>path = ''s.img'', label = ''data'', sizeByMb = ''1'', num = 2,
              start = None, endp = None, fd = None\<rparr>]
   \<and> fst (main ''cfg'' ''out.img'' ''/s'' add_fails_world)
       = Inl (CalledProcessError
               [''sgdisk'', ''--new=1:2048:4095'', ''--type=1:8300'', ''--change-name=1:system'',
                ''out.img''])
   \<and> trace (snd (main ''cfg'' ''out.img'' ''/s'' add_fails_world)) =
     [[''rm'', ''-rf'', ''out.img.qcow2''],
      [''dd'', ''if=/dev/zero'', ''of=out.img'', ''ibs=1024k'', ''count=1''],
      [''dd'', ''if=a.img'', ''of=out.img'', ''conv=notrunc,sync'', ''ibs=1024k'', ''obs=1024k'',
       ''seek=1''],
      [''simg2img'', ''s.img'', ''/tmp/tmp0''],
      [''dd'', ''if=/tmp/tmp0'', ''of=out.img'', ''conv=notrunc,sync'', ''ibs=1024k'',
       ''obs=1024k'', ''seek=2''],
      [''dd'', ''if=/dev/zero'', ''of=out.img'', ''conv=notrunc'', ''bs=1024k'', ''count=1'',
       ''seek=3''],
      [''sgdisk'', ''--clear'', ''out.img''],
      [''sgdisk'', ''--new=1:2048:4095'', ''--type=1:8300'', ''--change-name=1:system'',
       ''out.img'']]"
  by (simp add: run_defs add_fails_world_def after_rm_def)

end
